theory Spec2Isabelle
  imports Complex_Main "HOL-Library.Char_ord" "HOL-Library.List_Lexorder"
    "HOL-Library.Product_Lexorder" "HOL-Library.Multiset"
begin

section \<open>Python values\<close>

text \<open>
  The bridge handles what \<^verbatim>\<open>resp.json()\<close> returns: \<^verbatim>\<open>None\<close>, booleans, integers, floats,
  strings, lists and dicts. A finite float is modelled by the rational number it denotes
  (\<open>PFloat\<close>); the two infinities (\<open>PInf\<close>, with \<open>True\<close> for the negative one) and NaN, which
  the JSON parser returns for a number beyond the range of a float such as \<^verbatim>\<open>1e999\<close> and for
  the literals \<^verbatim>\<open>Infinity\<close> and \<^verbatim>\<open>NaN\<close>, are floats too. A string is a list of 8-bit
  characters read as the code points U+0000 to U+00FF; a dict is an association list in
  insertion order, looked up from the front.
\<close>

datatype pyval =
    PNone
  | PBool bool
  | PInt int
  | PFloat rat
  | PInf bool
  | PNaN
  | PStr string
  | PList "pyval list"
  | PDict "(pyval \<times> pyval) list"

type_synonym pydict = "(pyval \<times> pyval) list"

text \<open>The exceptions that the modelled code can raise.\<close>

datatype exn = TypeError | AttributeError | OverflowError | ValueError

text \<open>Truthiness, as \<^verbatim>\<open>if v:\<close> and \<^verbatim>\<open>bool(v)\<close> compute it.\<close>

fun py_bool :: "pyval \<Rightarrow> bool" where
  "py_bool PNone = False"
| "py_bool (PBool b) = b"
| "py_bool (PInt i) = (i \<noteq> 0)"
| "py_bool (PFloat r) = (r \<noteq> 0)"
| "py_bool (PInf neg) = True"
| "py_bool PNaN = True"
| "py_bool (PStr s) = (s \<noteq> [])"
| "py_bool (PList xs) = (xs \<noteq> [])"
| "py_bool (PDict d) = (d \<noteq> [])"

text \<open>
  \<^verbatim>\<open>isinstance(v, (bool, int))\<close> and \<^verbatim>\<open>isinstance(v, (int, float))\<close>. In Python \<^verbatim>\<open>bool\<close> is a
  subclass of \<^verbatim>\<open>int\<close>, so a boolean passes both tests.
\<close>

fun isinstance_bool_int :: "pyval \<Rightarrow> bool" where
  "isinstance_bool_int (PBool b) = True"
| "isinstance_bool_int (PInt i) = True"
| "isinstance_bool_int v = False"

fun isinstance_int_float :: "pyval \<Rightarrow> bool" where
  "isinstance_int_float (PBool b) = True"
| "isinstance_int_float (PInt i) = True"
| "isinstance_int_float (PFloat r) = True"
| "isinstance_int_float (PInf neg) = True"
| "isinstance_int_float PNaN = True"
| "isinstance_int_float v = False"

fun isinstance_str :: "pyval \<Rightarrow> bool" where
  "isinstance_str (PStr s) = True"
| "isinstance_str v = False"


text \<open>
  The number a boolean, integer or finite float denotes; \<open>None\<close> for any other value.
\<close>

fun num_val :: "pyval \<Rightarrow> rat option" where
  "num_val (PBool b) = Some (if b then 1 else 0)"
| "num_val (PInt i) = Some (of_int i)"
| "num_val (PFloat r) = Some r"
| "num_val v = None"

text \<open>\<^verbatim>\<open>int(x)\<close> on a finite number truncates towards zero.\<close>

definition trunc :: "rat \<Rightarrow> int" where
  "trunc r = (if 0 \<le> r then \<lfloor>r\<rfloor> else \<lceil>r\<rceil>)"

text \<open>
  \<^verbatim>\<open>int(v)\<close>, which the source calls on a value that passed
  \<^verbatim>\<open>isinstance(v, (int, float))\<close>: it raises \<^verbatim>\<open>OverflowError\<close> on an infinity and \<^verbatim>\<open>ValueError\<close>
  on NaN. The last equation is for the values that pass no such test; the source never
  reaches it.
\<close>

fun py_int :: "pyval \<Rightarrow> exn + int" where
  "py_int (PBool b) = Inr (if b then 1 else 0)"
| "py_int (PInt i) = Inr i"
| "py_int (PFloat r) = Inr (trunc r)"
| "py_int (PInf neg) = Inl OverflowError"
| "py_int PNaN = Inl ValueError"
| "py_int v = Inl TypeError"

text \<open>
  Python's \<^verbatim>\<open>==\<close> on the values that can be dict keys or compared with a number: finite
  numbers (booleans included) are equal when they denote the same number, and NaN is equal
  to nothing.
\<close>

definition py_eq :: "pyval \<Rightarrow> pyval \<Rightarrow> bool" where
  "py_eq a b =
     (case (num_val a, num_val b) of
        (Some x, Some y) \<Rightarrow> x = y
      | (None, None) \<Rightarrow> a = b \<and> a \<noteq> PNaN
      | _ \<Rightarrow> False)"

subsection \<open>Dicts\<close>

text \<open>\<^verbatim>\<open>d.get(k)\<close> and \<^verbatim>\<open>d.get(k, default)\<close> for a string key \<open>k\<close>.\<close>

definition dict_lookup :: "pydict \<Rightarrow> string \<Rightarrow> pyval option" where
  "dict_lookup d k = map_of d (PStr k)"

definition dict_get :: "pydict \<Rightarrow> string \<Rightarrow> pyval" where
  "dict_get d k = (case dict_lookup d k of None \<Rightarrow> PNone | Some v \<Rightarrow> v)"

definition dict_get_default :: "pydict \<Rightarrow> string \<Rightarrow> pyval \<Rightarrow> pyval" where
  "dict_get_default d k dflt = (case dict_lookup d k of None \<Rightarrow> dflt | Some v \<Rightarrow> v)"

subsection \<open>Strings\<close>

text \<open>
  \<^verbatim>\<open>str.isspace\<close> on U+0000 to U+00FF: tab, line feed, vertical tab, form feed, carriage
  return, the four separators U+001C to U+001F, space, U+0085 and U+00A0.
\<close>

definition py_isspace :: "char \<Rightarrow> bool" where
  "py_isspace c = (of_char c \<in> set [9, 10, 11, 12, 13, 28, 29, 30, 31, 32, 133, 160 :: nat])"

definition py_strip :: "string \<Rightarrow> string" where
  "py_strip s = rev (dropWhile py_isspace (rev (dropWhile py_isspace s)))"

text \<open>
  \<^verbatim>\<open>str.lower\<close> on U+0000 to U+00FF: A to Z, and U+00C0 to U+00DE without the
  multiplication sign U+00D7, move up by 32.
\<close>

definition lower_char :: "char \<Rightarrow> char" where
  "lower_char c =
     (let n = (of_char c :: nat)
      in if (65 \<le> n \<and> n \<le> 90) \<or> (192 \<le> n \<and> n \<le> 222 \<and> n \<noteq> 215)
         then char_of (n + 32) else c)"

definition py_lower :: "string \<Rightarrow> string" where
  "py_lower s = map lower_char s"

section \<open>Value pickers\<close>

text \<open>
  \<^verbatim>\<open>pick_boolean\<close>: the \<^verbatim>\<open>for\<close> loop over the candidate codes, as a recursion over the list
  of codes still to try.
\<close>

definition contact_codes :: "string list" where
  "contact_codes =
     [''doorcontact_state'', ''contact_state'', ''contact'', ''door'', ''open'',
      ''switch_1'', ''switch'']"

fun pick_boolean_from :: "string list \<Rightarrow> pydict \<Rightarrow> bool option" where
  "pick_boolean_from [] by_code = None"
| "pick_boolean_from (k # ks) by_code =
     (case dict_lookup by_code k of
        Some v \<Rightarrow>
          if isinstance_bool_int v then Some (py_bool v) else pick_boolean_from ks by_code
      | None \<Rightarrow> pick_boolean_from ks by_code)"

definition pick_boolean :: "pydict \<Rightarrow> bool option" where
  "pick_boolean by_code = pick_boolean_from contact_codes by_code"

definition battery_levels :: "(string \<times> int) list" where
  "battery_levels = [(''low'', 20), (''middle'', 60), (''medium'', 60), (''high'', 100)]"

text \<open>
  \<^verbatim>\<open>k in by_code and isinstance(by_code[k], (int, float))\<close>, giving the value when the test
  holds.
\<close>

definition numeric_at :: "pydict \<Rightarrow> string \<Rightarrow> pyval option" where
  "numeric_at by_code k =
     (case dict_lookup by_code k of
        Some v \<Rightarrow> if isinstance_int_float v then Some v else None
      | None \<Rightarrow> None)"

definition string_at :: "pydict \<Rightarrow> string \<Rightarrow> string option" where
  "string_at by_code k =
     (case dict_lookup by_code k of Some (PStr s) \<Rightarrow> Some s | _ \<Rightarrow> None)"

text \<open>
  \<^verbatim>\<open>pick_battery\<close> returns an integer or \<^verbatim>\<open>None\<close> (\<open>Inr\<close>), or raises what \<^verbatim>\<open>int\<close> raises
  (\<open>Inl\<close>).
\<close>

definition returned_int :: "exn + int \<Rightarrow> exn + int option" where
  "returned_int r = (case r of Inl e \<Rightarrow> Inl e | Inr n \<Rightarrow> Inr (Some n))"

definition pick_battery :: "pydict \<Rightarrow> exn + int option" where
  "pick_battery by_code =
     (case numeric_at by_code ''battery_percentage'' of
        Some v \<Rightarrow> returned_int (py_int v)
      | None \<Rightarrow>
          (case numeric_at by_code ''battery'' of
             Some v \<Rightarrow> returned_int (py_int v)
           | None \<Rightarrow>
               (case string_at by_code ''battery_state'' of
                  Some s \<Rightarrow> Inr (map_of battery_levels (py_lower (py_strip s)))
                | None \<Rightarrow> Inr None)))"

subsection \<open>The vocabulary of the extractor's contract\<close>


definition numeric_like :: "pydict \<Rightarrow> string \<Rightarrow> bool" where
  "numeric_like by_code k =
     (case dict_lookup by_code k of Some v \<Rightarrow> isinstance_int_float v | None \<Rightarrow> False)"

section \<open>The poll loop\<close>

text \<open>
  \<^verbatim>\<open>str(n)\<close> for an integer: its decimal digits, with a minus sign when negative.
\<close>

definition digit_char :: "nat \<Rightarrow> char" where
  "digit_char d = char_of (48 + d)"

fun digits :: "nat \<Rightarrow> string" where
  "digits n = (if n < 10 then [digit_char n] else digits (n div 10) @ [digit_char (n mod 10)])"

declare digits.simps [simp del]

definition py_str_int :: "int \<Rightarrow> string" where
  "py_str_int i = (if i < 0 then CHR ''-'' # digits (nat (- i)) else digits (nat i))"

text \<open>
  The three topics the loop publishes to, named as the source's constants; every publish
  is retained. \<^verbatim>\<open>OFFLINE_AFTER\<close> is in seconds, and clock readings (\<^verbatim>\<open>time.time()\<close>) are real
  numbers of seconds.
\<close>

datatype topic = AVAIL_TOPIC | STATE_TOPIC | BATT_TOPIC

type_synonym publish = "topic \<times> string"

definition OFFLINE_AFTER :: real where
  "OFFLINE_AFTER = 300"

record loop_state =
  last_ok :: real
  avail_state :: string

text \<open>
  One pass of the \<^verbatim>\<open>while True\<close> body of \<^verbatim>\<open>main\<close>. \<open>fetched\<close> is what
  \<^verbatim>\<open>fetch_shadow_v2(api)\<close> did: it returned a dict (\<open>Inr\<close>), empty when there was no data, or
  raised (\<open>Inl\<close>); \<open>now\<close> is the clock reading of the pass, taken after the fetch. An
  exception is caught by the \<^verbatim>\<open>except Exception\<close> of the loop, which logs it and goes on
  to the next pass: one raised by the fetch before anything else happens, one raised by
  \<^verbatim>\<open>pick_battery\<close> after the availability publish and the update of \<^verbatim>\<open>last_ok\<close> and before
  the state and battery publishes. The result is the list of publishes of the pass, in
  order, and the new loop state. Log lines are not modelled.
\<close>

definition tick :: "exn + pydict \<Rightarrow> real \<Rightarrow> loop_state \<Rightarrow> publish list \<times> loop_state" where
  "tick fetched now s =
     (case fetched of
        Inl e \<Rightarrow> ([], s)
      | Inr by_code \<Rightarrow>
          if by_code \<noteq> [] then
            (let s1 = s\<lparr>last_ok := now\<rparr>;
                 (pub_avail, s2) =
                   (if avail_state s1 \<noteq> ''online''
                    then ([(AVAIL_TOPIC, ''online'')], s1\<lparr>avail_state := ''online''\<rparr>)
                    else ([], s1));
                 onoff = pick_boolean by_code
             in case pick_battery by_code of
                  Inl e \<Rightarrow> (pub_avail, s2)
                | Inr batt \<Rightarrow>
                    (let pub_state =
                           (case onoff of
                              Some b \<Rightarrow> [(STATE_TOPIC, if b then ''ON'' else ''OFF'')]
                            | None \<Rightarrow> []);
                         pub_batt =
                           (case batt of
                              Some n \<Rightarrow> [(BATT_TOPIC, py_str_int n)]
                            | None \<Rightarrow> [])
                     in (pub_avail @ pub_state @ pub_batt, s2)))
          else if now - last_ok s > OFFLINE_AFTER \<and> avail_state s \<noteq> ''offline''
          then ([(AVAIL_TOPIC, ''offline'')], s\<lparr>avail_state := ''offline''\<rparr>)
          else ([], s))"

text \<open>
  The loop never ends; \<open>run\<close> is any finite number of its passes, each given by what the
  fetch did and the clock reading, collecting the publishes. \<open>main_loop\<close> starts it as
  \<^verbatim>\<open>main\<close> does: \<open>online\<close> is published before the first poll, and \<^verbatim>\<open>last_ok\<close> is the clock
  reading \<open>t0\<close> taken before the loop. The two discovery payloads, published once to
  topics of their own before that, and the broker client itself are outside the model.
\<close>

fun run :: "((exn + pydict) \<times> real) list \<Rightarrow> loop_state \<Rightarrow> publish list \<times> loop_state" where
  "run [] s = ([], s)"
| "run ((fetched, now) # ticks) s =
     (let (pubs, s1) = tick fetched now s;
          (pubs', s2) = run ticks s1
      in (pubs @ pubs', s2))"

definition initial_state :: "real \<Rightarrow> loop_state" where
  "initial_state t0 = \<lparr>last_ok = t0, avail_state = ''online''\<rparr>"

definition main_loop :: "real \<Rightarrow> ((exn + pydict) \<times> real) list \<Rightarrow> publish list \<times> loop_state" where
  "main_loop t0 ticks =
     (let (pubs, s) = run ticks (initial_state t0)
      in ((AVAIL_TOPIC, ''online'') # pubs, s))"

subsection \<open>The vocabulary of the availability contract\<close>

text \<open>
  A pass yields a snapshot when its fetch returned a non-empty dict. \<open>snapshot_within\<close>
  says that some pass of the history, read at \<open>now\<close>, yielded a snapshot no more than
  \<open>d\<close> seconds ago. \<open>on_topic\<close> gives the payloads published to a topic, in order.
\<close>

fun yields_snapshot :: "exn + pydict \<Rightarrow> bool" where
  "yields_snapshot (Inr by_code) = (by_code \<noteq> [])"
| "yields_snapshot (Inl e) = False"

fun fetch_returned :: "exn + pydict \<Rightarrow> bool" where
  "fetch_returned (Inr by_code) = True"
| "fetch_returned (Inl e) = False"

definition snapshot_within :: "real \<Rightarrow> ((exn + pydict) \<times> real) list \<Rightarrow> real \<Rightarrow> bool" where
  "snapshot_within d ticks now =
     list_ex (\<lambda>(fetched, t). yields_snapshot fetched \<and> now - t \<le> d) ticks"

definition on_topic :: "topic \<Rightarrow> publish list \<Rightarrow> string list" where
  "on_topic tp pubs = map snd (filter (\<lambda>p. fst p = tp) pubs)"

text \<open>
  For the proofs: the clock reading of the last pass that yielded a snapshot (\<open>b\<close> when
  there is none), and what the loop state guarantees at a clock reading \<open>T\<close>.
\<close>

fun last_success :: "real \<Rightarrow> ((exn + pydict) \<times> real) list \<Rightarrow> real" where
  "last_success b [] = b"
| "last_success b ((fetched, t) # ticks) =
     last_success (if yields_snapshot fetched then t else b) ticks"

definition avail_inv :: "loop_state \<Rightarrow> real \<Rightarrow> bool" where
  "avail_inv s T \<longleftrightarrow>
     (avail_state s = ''online'' \<or> avail_state s = ''offline'') \<and>
     (avail_state s = ''offline'' \<longrightarrow> T - last_ok s > OFFLINE_AFTER)"

section \<open>The signed-request client\<close>

subsection \<open>Strings, bytes and the query string\<close>

text \<open>
  \<^verbatim>\<open>str.upper\<close> on U+0000 to U+00FF: a to z, and U+00E0 to U+00FE without the division
  sign U+00F7, move down by 32; the sharp s U+00DF becomes \<open>SS\<close>. The capitals of U+00B5 and
  U+00FF lie beyond U+00FF; the model leaves these two characters as they are.
\<close>

definition upper_char :: "char \<Rightarrow> string" where
  "upper_char c =
     (let n = (of_char c :: nat)
      in if (97 \<le> n \<and> n \<le> 122) \<or> (224 \<le> n \<and> n \<le> 254 \<and> n \<noteq> 247)
         then [char_of (n - 32)]
         else if n = 223 then ''SS'' else [c])"

definition py_upper :: "string \<Rightarrow> string" where
  "py_upper s = concat (map upper_char s)"

text \<open>\<^verbatim>\<open>s.encode('utf-8')\<close>: a code point from U+0080 on takes two bytes.\<close>

definition utf8_char :: "char \<Rightarrow> string" where
  "utf8_char c =
     (let n = (of_char c :: nat)
      in if n < 128 then [c] else [char_of (192 + n div 64), char_of (128 + n mod 64)])"

definition utf8_encode :: "string \<Rightarrow> string" where
  "utf8_encode s = concat (map utf8_char s)"

text \<open>
  \<^verbatim>\<open>urllib.parse.quote_plus\<close> with no safe characters, as \<^verbatim>\<open>urlencode\<close> calls it: letters,
  digits and \<^verbatim>\<open>_.-~\<close> stay, a space becomes \<^verbatim>\<open>+\<close>, and every other character becomes
  \<^verbatim>\<open>%XX\<close> for each byte of its UTF-8 encoding, in upper-case hexadecimal.
\<close>

definition hex_digit :: "nat \<Rightarrow> char" where
  "hex_digit d = (if d < 10 then char_of (48 + d) else char_of (55 + d))"

definition percent_byte :: "char \<Rightarrow> string" where
  "percent_byte b =
     [CHR ''%'', hex_digit ((of_char b :: nat) div 16), hex_digit ((of_char b :: nat) mod 16)]"

definition always_safe :: "char \<Rightarrow> bool" where
  "always_safe c =
     (let n = (of_char c :: nat)
      in (65 \<le> n \<and> n \<le> 90) \<or> (97 \<le> n \<and> n \<le> 122) \<or> (48 \<le> n \<and> n \<le> 57) \<or>
         c = CHR ''_'' \<or> c = CHR ''.'' \<or> c = CHR ''-'' \<or> c = CHR ''~'')"

definition quote_plus_char :: "char \<Rightarrow> string" where
  "quote_plus_char c =
     (if always_safe c then [c]
      else if c = CHR '' '' then ''+''
      else concat (map percent_byte (utf8_char c)))"

definition quote_plus :: "string \<Rightarrow> string" where
  "quote_plus s = concat (map quote_plus_char s)"

text \<open>\<^verbatim>\<open>sep.join(xs)\<close>.\<close>

fun join :: "string \<Rightarrow> string list \<Rightarrow> string" where
  "join sep [] = []"
| "join sep [x] = x"
| "join sep (x # y # ys) = x @ sep @ join sep (y # ys)"

text \<open>\<^verbatim>\<open>urlencode\<close> on a list of pairs of strings.\<close>

definition urlencode :: "(string \<times> string) list \<Rightarrow> string" where
  "urlencode query = join ''&'' (map (\<lambda>(k, v). quote_plus k @ ''='' @ quote_plus v) query)"

text \<open>
  The values a caller passes in \<^verbatim>\<open>params\<close>: \<^verbatim>\<open>None\<close>, booleans, integers and strings, and
  \<^verbatim>\<open>str(v)\<close> on them. \<^verbatim>\<open>params\<close> is the list of the dict's items in insertion order; the
  empty list stands for both \<^verbatim>\<open>None\<close> and the empty dict, which the source treats alike.
\<close>

datatype qval = QNone | QBool bool | QInt int | QStr string

fun py_str :: "qval \<Rightarrow> string" where
  "py_str QNone = ''None''"
| "py_str (QBool b) = (if b then ''True'' else ''False'')"
| "py_str (QInt i) = py_str_int i"
| "py_str (QStr s) = s"

type_synonym params = "(string \<times> qval) list"

text \<open>
  The list \<^verbatim>\<open>sorted([(k, str(v)) for k, v in params.items()])\<close>: Python orders tuples
  lexicographically and strings by code point, which is the order of \<^typ>\<open>string \<times> string\<close>
  here.
\<close>

definition sorted_items :: "params \<Rightarrow> (string \<times> string) list" where
  "sorted_items ps = sort (map (\<lambda>(k, v). (k, py_str v)) ps)"

definition query_string :: "params \<Rightarrow> string" where
  "query_string ps = (if ps \<noteq> [] then urlencode (sorted_items ps) else [])"

definition norm_path :: "string \<Rightarrow> string" where
  "norm_path path = (case path of c # cs \<Rightarrow> if c = CHR ''/'' then path else CHR ''/'' # path
                     | [] \<Rightarrow> ''/'')"

definition full_path_of :: "string \<Rightarrow> params \<Rightarrow> string" where
  "full_path_of path ps =
     (let qs = query_string ps
      in if qs \<noteq> [] then norm_path path @ ''?'' @ qs else norm_path path)"

subsection \<open>Library functions taken as parameters\<close>

text \<open>
  \<^verbatim>\<open>hashlib.sha256(b).hexdigest()\<close>, \<^verbatim>\<open>hmac.new(key, msg, hashlib.sha256).hexdigest()\<close> and
  \<^verbatim>\<open>json.dumps(body, separators=(',', ':'), ensure_ascii=False)\<close> belong to Python's
  library, not to the bridge. Every function of the client takes them in a record, and
  every theorem holds for any three functions.
\<close>

record lib =
  sha256_hex :: "string \<Rightarrow> string"
  hmac_sha256_hex :: "string \<Rightarrow> string \<Rightarrow> string"
  json_dumps :: "pyval \<Rightarrow> string"

subsection \<open>Client state, requests and the outside world\<close>

record client =
  base_url :: string
  access_id :: string
  access_key :: string
  access_token :: pyval

definition rstrip_slash :: "string \<Rightarrow> string" where
  "rstrip_slash s = rev (dropWhile (\<lambda>c. c = CHR ''/'') (rev s))"

definition TuyaOpenAPI :: "string \<Rightarrow> string \<Rightarrow> string \<Rightarrow> client" where
  "TuyaOpenAPI url aid akey =
     \<lparr>base_url = rstrip_slash url, access_id = aid, access_key = akey, access_token = PNone\<rparr>"

record http_request =
  url :: string
  headers :: "(string \<times> string) list"

text \<open>
  What one HTTP attempt meets: \<^verbatim>\<open>requests.get\<close> raises (with the text of the exception),
  or \<^verbatim>\<open>resp.json()\<close> raises (leaving the status code and the body text), or it returns a
  value.
\<close>

datatype http_result =
    ConnError string
  | NonJson int string
  | Json pyval

text \<open>
  Each call of \<^verbatim>\<open>_request\<close> reads the clock and draws a nonce, then calls the server. The
  world holds, for the \<open>n\<close>-th call, the clock reading in milliseconds
  (\<^verbatim>\<open>int(time.time() * 1000)\<close>), the nonce (\<^verbatim>\<open>secrets.token_hex(16)\<close>) and what the server
  does; \<open>step\<close> counts the calls so far. The trace records, in order, each entry into
  \<^verbatim>\<open>_request\<close> (with \<^verbatim>\<open>use_token\<close> and \<^verbatim>\<open>retry\<close>), each entry into \<^verbatim>\<open>connect\<close> and each request
  handed to \<^verbatim>\<open>requests.get\<close>.
\<close>

record exchange =
  now_ms :: int
  nonce :: string
  response :: http_result

datatype event =
    Enter_request bool bool
  | Enter_connect
  | Http_get http_request

record world =
  script :: "nat \<Rightarrow> exchange"
  step :: nat
  trace :: "event list"

subsection \<open>Signing\<close>

text \<open>Lines 48 to 75 of the source, on the upper-cased method and the full path.\<close>

definition body_str_of :: "lib \<Rightarrow> string \<Rightarrow> pyval \<Rightarrow> string" where
  "body_str_of L method body =
     (if method = ''GET'' \<or> body = PNone then [] else json_dumps L body)"

definition string_to_sign_of :: "lib \<Rightarrow> string \<Rightarrow> string \<Rightarrow> string \<Rightarrow> string" where
  "string_to_sign_of L method body_str full_path =
     method @ [CHR 0x0A] @ sha256_hex L (utf8_encode body_str) @ [CHR 0x0A] @ [CHR 0x0A]
       @ full_path"

text \<open>
  The token that goes into the message and the headers: the held one when \<^verbatim>\<open>use_token\<close> is
  set and the held token is truthy, none otherwise.
  \<^verbatim>\<open>self.access_id + self.access_token + ...\<close> raises \<^verbatim>\<open>TypeError\<close> when that token is not a
  string.
\<close>

definition token_segment :: "client \<Rightarrow> bool \<Rightarrow> exn + string option" where
  "token_segment c use_token =
     (if use_token \<and> py_bool (access_token c) then
        (case access_token c of PStr tok \<Rightarrow> Inr (Some tok) | _ \<Rightarrow> Inl TypeError)
      else Inr None)"

definition message_of :: "client \<Rightarrow> string option \<Rightarrow> string \<Rightarrow> string \<Rightarrow> string \<Rightarrow> string" where
  "message_of c tok t nc string_to_sign =
     (case tok of
        Some tk \<Rightarrow> access_id c @ tk @ t @ nc @ string_to_sign
      | None \<Rightarrow> access_id c @ t @ nc @ string_to_sign)"

definition sign_of :: "lib \<Rightarrow> client \<Rightarrow> string \<Rightarrow> string" where
  "sign_of L c message =
     py_upper (hmac_sha256_hex L (utf8_encode (access_key c)) (utf8_encode message))"

definition headers_of ::
  "client \<Rightarrow> string option \<Rightarrow> string \<Rightarrow> string \<Rightarrow> string \<Rightarrow> string
     \<Rightarrow> (string \<times> string) list" where
  "headers_of c tok sign t nc body_str =
     [(''client_id'', access_id c), (''sign'', sign), (''t'', t), (''nonce'', nc),
      (''sign_method'', ''HMAC-SHA256'')]
     @ (case tok of Some tk \<Rightarrow> [(''access_token'', tk)] | None \<Rightarrow> [])
     @ (if body_str \<noteq> [] then [(''Content-Type'', ''application/json'')] else [])"

definition build_request ::
  "lib \<Rightarrow> client \<Rightarrow> string \<Rightarrow> string \<Rightarrow> params \<Rightarrow> pyval \<Rightarrow> bool \<Rightarrow> exchange
     \<Rightarrow> exn + http_request" where
  "build_request L c method path ps body use_token x =
     (let method = py_upper method;
          full_path = full_path_of path ps;
          body_str = body_str_of L method body;
          string_to_sign = string_to_sign_of L method body_str full_path;
          t = py_str_int (now_ms x)
      in case token_segment c use_token of
           Inl e \<Rightarrow> Inl e
         | Inr tok \<Rightarrow>
             (let message = message_of c tok t (nonce x) string_to_sign;
                  sign = sign_of L c message
              in Inr \<lparr>url = base_url c @ full_path,
                      headers = headers_of c tok sign t (nonce x) body_str\<rparr>))"

subsection \<open>\<^verbatim>\<open>_request\<close>, \<^verbatim>\<open>connect\<close> and \<^verbatim>\<open>get\<close>\<close>

text \<open>
  Lines 41 to 86: one attempt. It raises before anything is sent (\<open>Raised\<close>), returns the
  failure dict of a network error at once (\<open>Returned\<close>), or reaches the check for code 1010
  with the parsed body or the failure dict of a body that is not JSON (\<open>Parsed\<close>).
\<close>

datatype attempt = Raised exn | Returned pyval | Parsed pyval

definition http_error :: "string \<Rightarrow> pyval" where
  "http_error e =
     PDict [(PStr ''success'', PBool False), (PStr ''code'', PInt 0),
            (PStr ''msg'', PStr (''HTTP error: '' @ e))]"

definition non_json :: "int \<Rightarrow> string \<Rightarrow> pyval" where
  "non_json status text =
     PDict [(PStr ''success'', PBool False), (PStr ''code'', PInt status),
            (PStr ''msg'', PStr ''non-json''), (PStr ''text'', PStr text)]"

definition entered :: "world \<Rightarrow> bool \<Rightarrow> bool \<Rightarrow> world" where
  "entered w use_token retry =
     w\<lparr>step := step w + 1, trace := trace w @ [Enter_request use_token retry]\<rparr>"

definition sent :: "world \<Rightarrow> http_request \<Rightarrow> world" where
  "sent w rq = w\<lparr>trace := trace w @ [Http_get rq]\<rparr>"

definition try_once ::
  "lib \<Rightarrow> client \<Rightarrow> world \<Rightarrow> string \<Rightarrow> string \<Rightarrow> params \<Rightarrow> pyval \<Rightarrow> bool \<Rightarrow> bool
     \<Rightarrow> attempt \<times> world" where
  "try_once L c w method path ps body use_token retry =
     (let x = script w (step w);
          w1 = entered w use_token retry
      in case build_request L c method path ps body use_token x of
           Inl e \<Rightarrow> (Raised e, w1)
         | Inr rq \<Rightarrow>
             (case response x of
                ConnError e \<Rightarrow> (Returned (http_error e), sent w1 rq)
              | NonJson status text \<Rightarrow> (Parsed (non_json status text), sent w1 rq)
              | Json v \<Rightarrow> (Parsed v, sent w1 rq)))"

text \<open>
  \<^verbatim>\<open>isinstance(data, dict) and data.get('code') == 1010\<close>, and
  \<^verbatim>\<open>isinstance(data, dict) and data.get('success')\<close>.
\<close>

definition is_1010 :: "pyval \<Rightarrow> bool" where
  "is_1010 data = (case data of PDict d \<Rightarrow> py_eq (dict_get d ''code'') (PInt 1010) | _ \<Rightarrow> False)"

definition is_success :: "pyval \<Rightarrow> bool" where
  "is_success data = (case data of PDict d \<Rightarrow> py_bool (dict_get d ''success'') | _ \<Rightarrow> False)"

text \<open>
  Lines 30 to 34 of \<^verbatim>\<open>connect\<close>: \<^verbatim>\<open>data.get('result', {}).get('access_token')\<close> raises
  \<^verbatim>\<open>AttributeError\<close> when \<^verbatim>\<open>result\<close> is present and not a dict.
\<close>

definition store_token :: "client \<Rightarrow> pyval \<Rightarrow> exn + client" where
  "store_token c data =
     (case data of
        PDict d \<Rightarrow>
          if py_bool (dict_get d ''success'') then
            (case dict_get_default d ''result'' (PDict []) of
               PDict r \<Rightarrow>
                 (let tok = dict_get r ''access_token''
                  in Inr (if py_bool tok then c\<lparr>access_token := tok\<rparr> else c))
             | _ \<Rightarrow> Inl AttributeError)
          else Inr c
      | _ \<Rightarrow> Inr c)"

text \<open>
  \<^verbatim>\<open>_request\<close> calls \<^verbatim>\<open>connect\<close>, which calls \<^verbatim>\<open>_request\<close>. The first argument bounds the
  number of nested \<^verbatim>\<open>_request\<close> frames: with none left the result is \<open>None\<close>. A result is
  what the call raised (\<open>Inl\<close>) or returned (\<open>Inr\<close>), the client and the world after it.
\<close>

type_synonym outcome = "((exn + pyval) \<times> client \<times> world) option"

fun request ::
  "nat \<Rightarrow> lib \<Rightarrow> client \<Rightarrow> world \<Rightarrow> string \<Rightarrow> string \<Rightarrow> params \<Rightarrow> pyval \<Rightarrow> bool \<Rightarrow> bool
     \<Rightarrow> outcome"
and connect :: "nat \<Rightarrow> lib \<Rightarrow> client \<Rightarrow> world \<Rightarrow> outcome" where
  "request 0 L c w method path ps body use_token retry = None"
| "request (Suc n) L c w method path ps body use_token retry =
     (case try_once L c w method path ps body use_token retry of
        (Raised e, w1) \<Rightarrow> Some (Inl e, c, w1)
      | (Returned v, w1) \<Rightarrow> Some (Inr v, c, w1)
      | (Parsed data, w1) \<Rightarrow>
          if use_token \<and> is_1010 data \<and> retry then
            (case connect n L c w1 of
               None \<Rightarrow> None
             | Some (Inl e, c2, w2) \<Rightarrow> Some (Inl e, c2, w2)
             | Some (Inr cv, c2, w2) \<Rightarrow>
                 if is_success cv
                 then request n L c2 w2 (py_upper method) (norm_path path) ps body True False
                 else Some (Inr data, c2, w2))
          else Some (Inr data, c, w1))"
| "connect n L c w =
     (case request n L c (w\<lparr>trace := trace w @ [Enter_connect]\<rparr>)
             ''GET'' ''/v1.0/token'' [(''grant_type'', QInt 1)] PNone False True of
        None \<Rightarrow> None
      | Some (Inl e, c1, w1) \<Rightarrow> Some (Inl e, c1, w1)
      | Some (Inr data, c1, w1) \<Rightarrow>
          (case store_token c1 data of
             Inl e \<Rightarrow> Some (Inl e, c1, w1)
           | Inr c2 \<Rightarrow> Some (Inr data, c2, w1)))"

definition get :: "nat \<Rightarrow> lib \<Rightarrow> client \<Rightarrow> world \<Rightarrow> string \<Rightarrow> params \<Rightarrow> outcome" where
  "get n L c w path ps = request n L c w ''GET'' path ps PNone True True"

subsection \<open>The reference definition of the signature\<close>

text \<open>
  The signature as the specification words it, from a request description: the
  upper-case method, the path with its sorted query, the body bytes (none for a GET or a
  request without body), the timestamp, the nonce, the client id, the token when there is
  one, and the client secret. \<open>held\<close> is the client's token field for an optional token.
\<close>

definition spec_content_hash :: "lib \<Rightarrow> string option \<Rightarrow> string" where
  "spec_content_hash L body_bytes =
     sha256_hex L (case body_bytes of None \<Rightarrow> [] | Some bs \<Rightarrow> bs)"

definition spec_string_to_sign :: "string \<Rightarrow> string \<Rightarrow> string \<Rightarrow> string" where
  "spec_string_to_sign METHOD content_hash path_with_sorted_query =
     METHOD @ [CHR 0x0A] @ content_hash @ [CHR 0x0A] @ [CHR 0x0A] @ path_with_sorted_query"

definition spec_message :: "string \<Rightarrow> string option \<Rightarrow> string \<Rightarrow> string \<Rightarrow> string \<Rightarrow> string" where
  "spec_message client_id token t nc string_to_sign =
     client_id @ (case token of Some tk \<Rightarrow> tk | None \<Rightarrow> []) @ t @ nc @ string_to_sign"

definition spec_signature :: "lib \<Rightarrow> string \<Rightarrow> string \<Rightarrow> string" where
  "spec_signature L client_secret message =
     py_upper (hmac_sha256_hex L (utf8_encode client_secret) (utf8_encode message))"

definition held :: "string option \<Rightarrow> pyval" where
  "held token = (case token of Some tk \<Rightarrow> PStr tk | None \<Rightarrow> PNone)"

subsection \<open>Fetching the device shadow\<close>

text \<open>
  \<^verbatim>\<open>by_code[code] = val\<close>: a key equal to \<open>code\<close> keeps its place and takes the new value,
  a new key goes to the end. A dict takes a key for the one it holds when the two are the
  same object or equal; the parser returns one and the same object for every \<^verbatim>\<open>NaN\<close> it
  reads, so NaN is the same key as NaN although it is not equal to it. Lists and dicts are
  not hashable.
\<close>

fun hashable :: "pyval \<Rightarrow> bool" where
  "hashable (PList xs) = False"
| "hashable (PDict d) = False"
| "hashable v = True"

fun dict_set :: "pydict \<Rightarrow> pyval \<Rightarrow> pyval \<Rightarrow> pydict" where
  "dict_set [] k v = [(k, v)]"
| "dict_set ((k', v') # d) k v =
     (if k' = k \<or> py_eq k' k then (k', v) # d else (k', v') # dict_set d k v)"

text \<open>
  The \<^verbatim>\<open>for item in props\<close> loop of \<^verbatim>\<open>fetch_shadow_v2\<close>: \<^verbatim>\<open>item.get\<close> raises
  \<^verbatim>\<open>AttributeError\<close> on an item that is not a dict, and the assignment raises \<^verbatim>\<open>TypeError\<close> on
  a code that is not hashable.
\<close>

fun collect :: "pyval list \<Rightarrow> pydict \<Rightarrow> exn + pydict" where
  "collect [] by_code = Inr by_code"
| "collect (item # items) by_code =
     (case item of
        PDict it \<Rightarrow>
          (let code = dict_get it ''code''; val = dict_get it ''value''
           in if code \<noteq> PNone then
                (if hashable code then collect items (dict_set by_code code val)
                 else Inl TypeError)
              else collect items by_code)
      | _ \<Rightarrow> Inl AttributeError)"

text \<open>
  Lines 175 to 187: from the response to the dict of values by code.
  \<^verbatim>\<open>sh.get("result", {}).get("properties", [])\<close> raises \<^verbatim>\<open>AttributeError\<close> when \<^verbatim>\<open>result\<close> is
  present and not a dict. The empty dict is returned when there is nothing to return.
\<close>

definition shadow_by_code :: "pyval \<Rightarrow> exn + pydict" where
  "shadow_by_code sh =
     (case sh of
        PDict d \<Rightarrow>
          if py_bool (dict_get d ''success'') then
            (case dict_get_default d ''result'' (PDict []) of
               PDict r \<Rightarrow>
                 (case dict_get_default r ''properties'' (PList []) of
                    PList items \<Rightarrow> collect items []
                  | PDict p \<Rightarrow> Inr p
                  | _ \<Rightarrow> Inr [])
             | _ \<Rightarrow> Inl AttributeError)
          else Inr []
      | _ \<Rightarrow> Inr [])"

definition fetch_shadow_v2 ::
  "nat \<Rightarrow> lib \<Rightarrow> string \<Rightarrow> client \<Rightarrow> world \<Rightarrow> ((exn + pydict) \<times> client \<times> world) option" where
  "fetch_shadow_v2 n L DEVICE_ID c w =
     (case get n L c w (''/v2.0/cloud/thing/'' @ DEVICE_ID @ ''/shadow/properties'') [] of
        None \<Rightarrow> None
      | Some (Inl e, c1, w1) \<Rightarrow> Some (Inl e, c1, w1)
      | Some (Inr sh, c1, w1) \<Rightarrow> Some (shadow_by_code sh, c1, w1))"

text \<open>One pass of the loop of \<^verbatim>\<open>main\<close> with its fetch: \<open>tick\<close> on what the fetch did.\<close>

definition poll ::
  "nat \<Rightarrow> lib \<Rightarrow> string \<Rightarrow> real \<Rightarrow> client \<times> world \<times> loop_state
     \<Rightarrow> (publish list \<times> client \<times> world \<times> loop_state) option" where
  "poll n L DEVICE_ID now cws =
     (case cws of
        (c, w, s) \<Rightarrow>
          (case fetch_shadow_v2 n L DEVICE_ID c w of
             None \<Rightarrow> None
           | Some (fetched, c1, w1) \<Rightarrow>
               (case tick fetched now s of (pubs, s1) \<Rightarrow> Some (pubs, c1, w1, s1))))"

subsection \<open>The refresh as an explicit sequence\<close>

text \<open>
  \<^verbatim>\<open>_request\<close> without its refresh, and \<^verbatim>\<open>connect\<close> on top of it: the two steps that the
  recursion goes through. \<open>reply_value\<close> is the value \<^verbatim>\<open>data\<close> of an attempt that was sent,
  \<open>token_request\<close> the request that \<^verbatim>\<open>connect\<close> builds.
\<close>

definition request_once ::
  "lib \<Rightarrow> client \<Rightarrow> world \<Rightarrow> string \<Rightarrow> string \<Rightarrow> params \<Rightarrow> pyval \<Rightarrow> bool \<Rightarrow> bool
     \<Rightarrow> (exn + pyval) \<times> client \<times> world" where
  "request_once L c w method path ps body use_token retry =
     (case try_once L c w method path ps body use_token retry of
        (Raised e, w1) \<Rightarrow> (Inl e, c, w1)
      | (Returned v, w1) \<Rightarrow> (Inr v, c, w1)
      | (Parsed data, w1) \<Rightarrow> (Inr data, c, w1))"

definition connect_once :: "lib \<Rightarrow> client \<Rightarrow> world \<Rightarrow> (exn + pyval) \<times> client \<times> world" where
  "connect_once L c w =
     (case request_once L c (w\<lparr>trace := trace w @ [Enter_connect]\<rparr>)
             ''GET'' ''/v1.0/token'' [(''grant_type'', QInt 1)] PNone False True of
        (Inl e, c1, w1) \<Rightarrow> (Inl e, c1, w1)
      | (Inr data, c1, w1) \<Rightarrow>
          (case store_token c1 data of
             Inl e \<Rightarrow> (Inl e, c1, w1)
           | Inr c2 \<Rightarrow> (Inr data, c2, w1)))"

definition reply_value :: "http_result \<Rightarrow> pyval" where
  "reply_value r =
     (case r of
        ConnError e \<Rightarrow> http_error e
      | NonJson status text \<Rightarrow> non_json status text
      | Json v \<Rightarrow> v)"

definition token_request :: "lib \<Rightarrow> client \<Rightarrow> exchange \<Rightarrow> exn + http_request" where
  "token_request L c x =
     build_request L c ''GET'' ''/v1.0/token'' [(''grant_type'', QInt 1)] PNone False x"

subsection \<open>Counting calls in the trace\<close>

text \<open>
  The events between two worlds, the number of entries into \<^verbatim>\<open>connect\<close> among them, and
  the number of entries into \<^verbatim>\<open>_request\<close> with \<^verbatim>\<open>use_token=True, retry=False\<close>, which is how
  the retried request is called. \<open>reauth_ok\<close> is the test of line 92 on what \<^verbatim>\<open>connect\<close> did:
  it returned a dict with a truthy \<^verbatim>\<open>success\<close>. \<open>attempt_events\<close> are the events of one attempt.
\<close>

definition reauth_ok :: "exn + pyval \<Rightarrow> bool" where
  "reauth_ok cres = (case cres of Inr cv \<Rightarrow> is_success cv | Inl e \<Rightarrow> False)"

definition new_events :: "world \<Rightarrow> world \<Rightarrow> event list" where
  "new_events w w' = drop (length (trace w)) (trace w')"

definition count_connect :: "event list \<Rightarrow> nat" where
  "count_connect evs = length (filter (\<lambda>e. e = Enter_connect) evs)"

definition count_retry :: "event list \<Rightarrow> nat" where
  "count_retry evs = length (filter (\<lambda>e. e = Enter_request True False) evs)"

definition attempt_events ::
  "lib \<Rightarrow> client \<Rightarrow> world \<Rightarrow> string \<Rightarrow> string \<Rightarrow> params \<Rightarrow> pyval \<Rightarrow> bool \<Rightarrow> bool
     \<Rightarrow> event list" where
  "attempt_events L c w method path ps body use_token retry =
     Enter_request use_token retry #
       (case build_request L c method path ps body use_token (script w (step w)) of
          Inl e \<Rightarrow> []
        | Inr rq \<Rightarrow> [Http_get rq])"

subsection \<open>Tagged results and response envelopes\<close>

text \<open>
  A result is tagged when it is a dict with a boolean \<^verbatim>\<open>success\<close> field, and a failure dict
  when that field is \<open>False\<close> and it carries an integer \<^verbatim>\<open>code\<close> and a string \<^verbatim>\<open>msg\<close>. A JSON
  body is a response envelope when it is a dict with a boolean \<^verbatim>\<open>success\<close> field whose
  \<^verbatim>\<open>result\<close>, when present, is a dict whose \<^verbatim>\<open>access_token\<close>, when present, is a string. A
  held token is usable when it is \<^verbatim>\<open>None\<close> or a string.
\<close>

definition tagged :: "pyval \<Rightarrow> bool" where
  "tagged v =
     (case v of
        PDict d \<Rightarrow> (case dict_lookup d ''success'' of Some (PBool b) \<Rightarrow> True | _ \<Rightarrow> False)
      | _ \<Rightarrow> False)"





subsection \<open>A sample client and sample worlds\<close>

text \<open>
  Concrete inputs for the worked examples: three stand-ins for the library functions, a
  client without token, a world whose \<open>n\<close>-th call meets the \<open>n\<close>-th reply of a given
  sequence, the token-invalid response, a token response, and the sequence of replies in
  which the token response answers the refresh.
\<close>

definition sample_lib :: lib where
  "sample_lib = \<lparr>sha256_hex = (\<lambda>b. b), hmac_sha256_hex = (\<lambda>k m. m), json_dumps = (\<lambda>v. [])\<rparr>"

definition sample_client :: client where
  "sample_client = TuyaOpenAPI ''https://h'' ''id'' ''key''"

definition world_of :: "(nat \<Rightarrow> http_result) \<Rightarrow> world" where
  "world_of replies =
     \<lparr>script = (\<lambda>n. \<lparr>now_ms = 1700 + int n, nonce = ''n'', response = replies n\<rparr>),
      step = 0, trace = []\<rparr>"

definition token_invalid :: pyval where
  "token_invalid = PDict [(PStr ''success'', PBool False), (PStr ''code'', PInt 1010)]"

definition token_granted :: pyval where
  "token_granted =
     PDict [(PStr ''success'', PBool True),
            (PStr ''result'', PDict [(PStr ''access_token'', PStr ''new'')])]"

definition refresh_replies :: "nat \<Rightarrow> http_result" where
  "refresh_replies n = (if n = 1 then Json token_granted else Json token_invalid)"

text \<open>
  A success response of the token endpoint whose \<^verbatim>\<open>result\<close> is \<^verbatim>\<open>null\<close>, and the sequence of
  replies in which it answers the refresh that follows a token-invalid response.
\<close>

definition token_missing :: pyval where
  "token_missing = PDict [(PStr ''success'', PBool True), (PStr ''result'', PNone)]"

definition token_missing_replies :: "nat \<Rightarrow> http_result" where
  "token_missing_replies n = (if n = 1 then Json token_missing else Json token_invalid)"

section \<open>Properties of the pickers\<close>



lemma pick_boolean_from_hit:
  "dict_lookup d k = Some v \<Longrightarrow> isinstance_bool_int v \<Longrightarrow>
   pick_boolean_from (k # ks) d = Some (py_bool v)"
  by simp


lemma num_val_isinstance: "num_val v = Some x \<Longrightarrow> isinstance_int_float v"
  by (cases v) simp_all

lemma py_int_num_val: "num_val v = Some x \<Longrightarrow> py_int v = Inr (trunc x)"
  by (cases v) (auto simp: trunc_def)

lemma numeric_at_Some:
  "dict_lookup d k = Some v \<Longrightarrow> num_val v = Some x \<Longrightarrow> numeric_at d k = Some v"
  by (simp add: numeric_at_def num_val_isinstance)

lemma numeric_at_None: "\<not> numeric_like d k \<Longrightarrow> numeric_at d k = None"
  by (auto simp: numeric_at_def numeric_like_def split: option.splits)




text \<open>
  What holds of \<^verbatim>\<open>pick_battery\<close> on finite numbers. It resolves in order: a
  \<^verbatim>\<open>battery_percentage\<close> value that denotes a finite number (a Python boolean counts as the
  integer 1 or 0), truncated towards zero; else, when \<^verbatim>\<open>battery_percentage\<close> is no number at
  all, such a \<^verbatim>\<open>battery\<close> value, truncated alike; else, when neither is a number, a string
  \<^verbatim>\<open>battery_state\<close>, stripped and lower-cased, looked up in low: 20, middle: 60, medium: 60,
  high: 100, a string outside the table giving \<open>None\<close>; else \<open>None\<close>.
  \<^verbatim>\<open>{battery_state: "Low "}\<close> gives 20 and \<^verbatim>\<open>{battery_state: "unknown"}\<close> gives \<open>None\<close>.
\<close>

lemma pick_battery_order:
  "(\<forall>v x. dict_lookup by_code ''battery_percentage'' = Some v \<and> num_val v = Some x \<longrightarrow>
      pick_battery by_code = Inr (Some (trunc x))) \<and>
   (\<not> numeric_like by_code ''battery_percentage'' \<longrightarrow>
      (\<forall>v x. dict_lookup by_code ''battery'' = Some v \<and> num_val v = Some x \<longrightarrow>
         pick_battery by_code = Inr (Some (trunc x)))) \<and>
   (\<not> numeric_like by_code ''battery_percentage'' \<and> \<not> numeric_like by_code ''battery'' \<longrightarrow>
      (\<forall>s. dict_lookup by_code ''battery_state'' = Some (PStr s) \<longrightarrow>
         pick_battery by_code =
           Inr (map_of [(''low'', 20), (''middle'', 60), (''medium'', 60), (''high'', 100)]
                  (py_lower (py_strip s)))) \<and>
      ((\<forall>s. dict_lookup by_code ''battery_state'' \<noteq> Some (PStr s)) \<longrightarrow>
         pick_battery by_code = Inr None)) \<and>
   pick_battery [(PStr ''battery_state'', PStr ''Low '')] = Inr (Some 20) \<and>
   pick_battery [(PStr ''battery_state'', PStr ''unknown'')] = Inr None"
proof (intro conjI allI impI)
  fix v x
  assume "dict_lookup by_code ''battery_percentage'' = Some v \<and> num_val v = Some x"
  then show "pick_battery by_code = Inr (Some (trunc x))"
    by (simp add: pick_battery_def numeric_at_Some py_int_num_val returned_int_def)
next
  fix v x
  assume "\<not> numeric_like by_code ''battery_percentage''"
    and "dict_lookup by_code ''battery'' = Some v \<and> num_val v = Some x"
  then show "pick_battery by_code = Inr (Some (trunc x))"
    by (simp add: pick_battery_def numeric_at_None numeric_at_Some py_int_num_val
        returned_int_def)
next
  fix s
  assume "\<not> numeric_like by_code ''battery_percentage'' \<and> \<not> numeric_like by_code ''battery''"
    and "dict_lookup by_code ''battery_state'' = Some (PStr s)"
  then show "pick_battery by_code =
      Inr (map_of [(''low'', 20), (''middle'', 60), (''medium'', 60), (''high'', 100)]
        (py_lower (py_strip s)))"
    by (simp add: pick_battery_def numeric_at_None string_at_def battery_levels_def)
next
  assume "\<not> numeric_like by_code ''battery_percentage'' \<and> \<not> numeric_like by_code ''battery''"
    and "\<forall>s. dict_lookup by_code ''battery_state'' \<noteq> Some (PStr s)"
  then show "pick_battery by_code = Inr None"
    by (auto simp: pick_battery_def numeric_at_None string_at_def split: option.splits pyval.splits)
next
  show "pick_battery [(PStr ''battery_state'', PStr ''Low '')] = Inr (Some 20)"
    by code_simp
next
  show "pick_battery [(PStr ''battery_state'', PStr ''unknown'')] = Inr None"
    by code_simp
qed

lemma pick_battery_example:
  "pick_battery [(PStr ''battery_percentage'', PStr ''n/a''), (PStr ''battery'', PFloat (175 / 2))]
     = Inr (Some 87)"
proof -
  let ?d = "[(PStr ''battery_percentage'', PStr ''n/a''), (PStr ''battery'', PFloat (175 / 2))]"
  have no_pct: "\<not> numeric_like ?d ''battery_percentage''"
    by (simp add: numeric_like_def dict_lookup_def)
  have hit: "dict_lookup ?d ''battery'' = Some (PFloat (175 / 2)) \<and> num_val (PFloat (175 / 2)) = Some (175 / 2)"
    by (simp add: dict_lookup_def)
  have tr: "trunc (175 / 2) = 87"
    by code_simp
  from pick_battery_order [of ?d] no_pct hit
  have "pick_battery ?d = Inr (Some (trunc (175 / 2)))"
    by blast
  then show ?thesis by (simp only: tr)
qed

text \<open>\<^verbatim>\<open>pick_battery\<close> raises only what \<^verbatim>\<open>int\<close> raises on an infinity or on NaN.\<close>

lemma returned_int_raises:
  "returned_int (py_int v) = Inl e \<Longrightarrow> isinstance_int_float v \<Longrightarrow>
   (\<exists>neg. v = PInf neg) \<and> e = OverflowError \<or> v = PNaN \<and> e = ValueError"
  by (cases v) (auto simp: returned_int_def)

lemma pick_battery_raises:
  assumes "pick_battery by_code = Inl e"
  shows "\<exists>k v. (k = ''battery_percentage'' \<or> k = ''battery'') \<and> dict_lookup by_code k = Some v \<and>
     ((\<exists>neg. v = PInf neg) \<and> e = OverflowError \<or> v = PNaN \<and> e = ValueError)"
proof (cases "numeric_at by_code ''battery_percentage''")
  case (Some v)
  then have v: "dict_lookup by_code ''battery_percentage'' = Some v" "isinstance_int_float v"
    by (auto simp: numeric_at_def split: option.splits if_splits)
  have "returned_int (py_int v) = Inl e"
    using assms Some by (simp add: pick_battery_def)
  from returned_int_raises [OF this v(2)] v(1) show ?thesis
    by blast
next
  case None
  show ?thesis
  proof (cases "numeric_at by_code ''battery''")
    case (Some v)
    then have v: "dict_lookup by_code ''battery'' = Some v" "isinstance_int_float v"
      by (auto simp: numeric_at_def split: option.splits if_splits)
    have "returned_int (py_int v) = Inl e"
      using assms None Some by (simp add: pick_battery_def)
    from returned_int_raises [OF this v(2)] v(1) show ?thesis
      by blast
  next
    case None': None
    then show ?thesis
      using assms None by (simp add: pick_battery_def split: option.splits)
  qed
qed

text \<open>
  Claim C6 says that battery resolves for every snapshot, a numeric \<^verbatim>\<open>battery_percentage\<close> or
  \<^verbatim>\<open>battery\<close> value being truncated to an integer. A float infinity or NaN is numeric for the
  test \<^verbatim>\<open>isinstance(v, (int, float))\<close>, and \<^verbatim>\<open>int(v)\<close> then raises \<^verbatim>\<open>OverflowError\<close> or
  \<^verbatim>\<open>ValueError\<close>: \<^verbatim>\<open>pick_battery\<close> resolves to nothing, it raises.
\<close>

theorem pick_battery_raises_on_non_finite:
  "pick_battery [(PStr ''battery_percentage'', PInf False)] = Inl OverflowError \<and>
   pick_battery [(PStr ''battery_percentage'', PNaN)] = Inl ValueError \<and>
   pick_battery [(PStr ''battery_percentage'', PStr ''n/a''), (PStr ''battery'', PInf True)]
     = Inl OverflowError"
  by (simp add: pick_battery_def numeric_at_def string_at_def dict_lookup_def returned_int_def)

section \<open>Properties of the poll loop\<close>

lemma run_Cons_snd: "snd (run ((f, t) # ticks) s) = snd (run ticks (snd (tick f t s)))"
  by (simp split: prod.splits)

lemma run_Cons_fst:
  "fst (run ((f, t) # ticks) s) = fst (tick f t s) @ fst (run ticks (snd (tick f t s)))"
  by (simp split: prod.splits)

lemma tick_last_ok:
  "last_ok (snd (tick f now s)) = (if yields_snapshot f then now else last_ok s)"
  by (cases f) (auto simp: tick_def Let_def split: prod.splits sum.splits if_splits)

lemma run_last_ok: "last_ok (snd (run ticks s)) = last_success (last_ok s) ticks"
proof (induction ticks arbitrary: s)
  case Nil
  show ?case by simp
next
  case (Cons x ticks)
  obtain f t where x: "x = (f, t)" by (cases x)
  show ?case
    unfolding x run_Cons_snd Cons.IH tick_last_ok by simp
qed

lemma run_append:
  "run (xs @ ys) s =
     (fst (run xs s) @ fst (run ys (snd (run xs s))), snd (run ys (snd (run xs s))))"
  by (induction xs arbitrary: s) (auto split: prod.splits)

lemma run_single: "run [(f, now)] s = tick f now s"
  by (simp split: prod.splits)

lemma run_snoc:
  "run (xs @ [(f, now)]) s =
     (fst (run xs s) @ fst (tick f now (snd (run xs s))), snd (tick f now (snd (run xs s))))"
  by (simp add: run_append split: prod.splits)

lemma avail_inv_mono: "avail_inv s T \<Longrightarrow> T \<le> T' \<Longrightarrow> avail_inv s T'"
  by (auto simp: avail_inv_def)

lemma tick_avail_inv:
  "avail_inv s T \<Longrightarrow> T \<le> now \<Longrightarrow> avail_inv (snd (tick f now s)) now"
  by (cases f) (auto simp: avail_inv_def tick_def Let_def OFFLINE_AFTER_def split: prod.splits sum.splits)

lemma run_avail_inv:
  "avail_inv s T \<Longrightarrow> sorted (T # map snd ticks) \<Longrightarrow>
   avail_inv (snd (run ticks s)) (last (T # map snd ticks))"
proof (induction ticks arbitrary: s T)
  case Nil
  then show ?case by simp
next
  case (Cons x ticks)
  obtain f t where x: "x = (f, t)" by (cases x)
  have le: "T \<le> t" and srt: "sorted (t # map snd ticks)"
    using Cons.prems(2) x by auto
  have "avail_inv (snd (tick f t s)) t"
    using tick_avail_inv [OF Cons.prems(1) le] .
  from Cons.IH [OF this srt] show ?case
    unfolding x run_Cons_snd by simp
qed

lemma tick_online_iff:
  "avail_inv s T \<Longrightarrow> T \<le> now \<Longrightarrow> fetch_returned f \<Longrightarrow>
   avail_state (snd (tick f now s)) = ''online'' \<longleftrightarrow>
     now - last_ok (snd (tick f now s)) \<le> OFFLINE_AFTER"
  by (cases f) (auto simp: avail_inv_def tick_def Let_def OFFLINE_AFTER_def split: prod.splits sum.splits)

lemma last_success_within:
  "sorted (b # map snd ticks) \<Longrightarrow> \<forall>t\<in>set (map snd ticks). t \<le> now \<Longrightarrow>
   now - last_success b ticks \<le> d \<longleftrightarrow> snapshot_within d ticks now \<or> now - b \<le> d"
proof (induction ticks arbitrary: b)
  case Nil
  show ?case by (simp add: snapshot_within_def)
next
  case (Cons x ticks)
  obtain f t where x: "x = (f, t)" by (cases x)
  have le: "b \<le> t" and srt: "sorted (t # map snd ticks)" and srt': "sorted (b # map snd ticks)"
    using Cons.prems(1) x by auto
  have bound: "\<forall>t\<in>set (map snd ticks). t \<le> now"
    using Cons.prems(2) by simp
  show ?case
  proof (cases "yields_snapshot f")
    case True
    have "now - last_success t ticks \<le> d \<longleftrightarrow> snapshot_within d ticks now \<or> now - t \<le> d"
      using Cons.IH [OF srt bound] .
    then show ?thesis
      using True x le by (auto simp: snapshot_within_def)
  next
    case False
    have "now - last_success b ticks \<le> d \<longleftrightarrow> snapshot_within d ticks now \<or> now - b \<le> d"
      using Cons.IH [OF srt' bound] .
    then show ?thesis
      using False x by (auto simp: snapshot_within_def)
  qed
qed

lemma sorted_snoc_bound:
  "sorted (xs @ [now :: real]) \<Longrightarrow> \<forall>t\<in>set (xs @ [now]). t \<le> now"
  by (auto simp: sorted_append)

lemma initial_avail_inv: "avail_inv (initial_state t0) t0"
  by (simp add: avail_inv_def initial_state_def)

lemma online_iff_recent:
  assumes srt: "sorted (t0 # map snd (ticks @ [(f, now)]))" and ret: "fetch_returned f"
  shows "avail_state (snd (main_loop t0 (ticks @ [(f, now)]))) = ''online'' \<longleftrightarrow>
     snapshot_within OFFLINE_AFTER (ticks @ [(f, now)]) now \<or> now - t0 \<le> OFFLINE_AFTER"
proof -
  let ?s = "snd (run ticks (initial_state t0))"
  let ?T = "last (t0 # map snd ticks)"
  have srt1: "sorted (t0 # map snd ticks)"
    using srt by (simp add: sorted_append)
  have inv: "avail_inv ?s ?T"
    using run_avail_inv [OF initial_avail_inv srt1] .
  have T_le: "?T \<le> now"
    using srt by (cases ticks rule: rev_cases) (auto simp: sorted_append)
  have final: "snd (main_loop t0 (ticks @ [(f, now)])) = snd (tick f now ?s)"
    by (simp add: main_loop_def run_snoc split: prod.splits)
  have lo: "last_ok (snd (tick f now ?s)) = last_success t0 (ticks @ [(f, now)])"
    using run_last_ok [of "ticks @ [(f, now)]" "initial_state t0"]
    by (simp add: run_snoc initial_state_def)
  have bound: "\<forall>t\<in>set (map snd (ticks @ [(f, now)])). t \<le> now"
    using srt by (auto simp: sorted_append)
  show ?thesis
    unfolding final tick_online_iff [OF inv T_le ret] lo
    using last_success_within [OF srt bound] .
qed

lemma on_topic_append: "on_topic tp (xs @ ys) = on_topic tp xs @ on_topic tp ys"
  by (simp add: on_topic_def)

lemma tick_avail_pub:
  "on_topic AVAIL_TOPIC (fst (tick f now s)) =
     (if avail_state (snd (tick f now s)) = avail_state s then []
      else [avail_state (snd (tick f now s))])"
  by (cases f)
    (auto simp: tick_def Let_def on_topic_def split: prod.splits sum.splits option.splits)

lemma tick_change_cause:
  "avail_state (snd (tick f now s)) \<noteq> avail_state s \<Longrightarrow>
   (avail_state (snd (tick f now s)) = ''online'' \<and> yields_snapshot f) \<or>
   (avail_state (snd (tick f now s)) = ''offline'' \<and> f = Inr [] \<and>
      now - last_ok s > OFFLINE_AFTER)"
  by (cases f) (auto simp: tick_def Let_def split: prod.splits sum.splits if_splits)

lemma run_avail_pubs:
  "distinct_adj (avail_state s # on_topic AVAIL_TOPIC (fst (run ticks s))) \<and>
   last (avail_state s # on_topic AVAIL_TOPIC (fst (run ticks s))) =
     avail_state (snd (run ticks s))"
proof (induction ticks arbitrary: s)
  case Nil
  show ?case by (simp add: on_topic_def)
next
  case (Cons x ticks)
  obtain f t where x: "x = (f, t)" by (cases x)
  let ?s1 = "snd (tick f t s)"
  note IH = Cons.IH [of ?s1]
  show ?case
  proof (cases "avail_state ?s1 = avail_state s")
    case True
    then show ?thesis
      using IH unfolding x run_Cons_fst run_Cons_snd on_topic_append tick_avail_pub
      by simp
  next
    case False
    then show ?thesis
      using IH unfolding x run_Cons_fst run_Cons_snd on_topic_append tick_avail_pub
      by simp
  qed
qed

lemma main_loop_avail_pubs:
  "on_topic AVAIL_TOPIC (fst (main_loop t0 ticks)) =
     ''online'' # on_topic AVAIL_TOPIC (fst (run ticks (initial_state t0)))"
  by (simp add: main_loop_def on_topic_def split: prod.splits)

lemma main_loop_distinct_adj:
  "distinct_adj (on_topic AVAIL_TOPIC (fst (main_loop t0 ticks)))"
  using run_avail_pubs [of "initial_state t0" ticks]
  by (simp add: main_loop_avail_pubs initial_state_def)

text \<open>
  Claim C3, as amended. With clock readings that never decrease, after every pass whose
  fetch returned (with or without data) the availability state is \<open>online\<close> if and only if
  a non-empty snapshot was obtained no more than \<^verbatim>\<open>OFFLINE_AFTER\<close> seconds ago or no more than
  \<^verbatim>\<open>OFFLINE_AFTER\<close> seconds have elapsed since startup. The availability publishes, starting
  with the \<open>online\<close> of startup, never repeat a payload twice in a row: a pass publishes
  to the availability topic exactly when it changes the state, the new state being the
  payload; the change is to \<open>online\<close> on a non-empty fetch, or to \<open>offline\<close> on an empty
  fetch more than \<^verbatim>\<open>OFFLINE_AFTER\<close> seconds after the last success. \<^verbatim>\<open>last_ok\<close> changes only
  on a pass that yields a non-empty snapshot, to that pass's clock reading.
\<close>

theorem availability_invariant:
  "(sorted (t0 # map snd (ticks @ [(f, now)])) \<and> fetch_returned f \<longrightarrow>
      (avail_state (snd (main_loop t0 (ticks @ [(f, now)]))) = ''online'' \<longleftrightarrow>
         snapshot_within OFFLINE_AFTER (ticks @ [(f, now)]) now \<or>
         now - t0 \<le> OFFLINE_AFTER)) \<and>
   distinct_adj (on_topic AVAIL_TOPIC (fst (main_loop t0 ticks))) \<and>
   hd (on_topic AVAIL_TOPIC (fst (main_loop t0 ticks))) = ''online'' \<and>
   on_topic AVAIL_TOPIC (fst (tick f now s)) =
     (if avail_state (snd (tick f now s)) = avail_state s then []
      else [avail_state (snd (tick f now s))]) \<and>
   (avail_state (snd (tick f now s)) \<noteq> avail_state s \<longrightarrow>
      (avail_state (snd (tick f now s)) = ''online'' \<and> yields_snapshot f) \<or>
      (avail_state (snd (tick f now s)) = ''offline'' \<and> f = Inr [] \<and>
         now - last_ok s > OFFLINE_AFTER)) \<and>
   last_ok (snd (tick f now s)) = (if yields_snapshot f then now else last_ok s)"
proof (intro conjI impI)
  assume "sorted (t0 # map snd (ticks @ [(f, now)])) \<and> fetch_returned f"
  then show "avail_state (snd (main_loop t0 (ticks @ [(f, now)]))) = ''online'' \<longleftrightarrow>
         snapshot_within OFFLINE_AFTER (ticks @ [(f, now)]) now \<or>
         now - t0 \<le> OFFLINE_AFTER"
    using online_iff_recent by blast
next
  show "distinct_adj (on_topic AVAIL_TOPIC (fst (main_loop t0 ticks)))"
    by (rule main_loop_distinct_adj)
next
  show "hd (on_topic AVAIL_TOPIC (fst (main_loop t0 ticks))) = ''online''"
    by (simp add: main_loop_avail_pubs)
next
  show "on_topic AVAIL_TOPIC (fst (tick f now s)) =
     (if avail_state (snd (tick f now s)) = avail_state s then []
      else [avail_state (snd (tick f now s))])"
    by (rule tick_avail_pub)
next
  assume "avail_state (snd (tick f now s)) \<noteq> avail_state s"
  then show "(avail_state (snd (tick f now s)) = ''online'' \<and> yields_snapshot f) \<or>
      (avail_state (snd (tick f now s)) = ''offline'' \<and> f = Inr [] \<and>
         now - last_ok s > OFFLINE_AFTER)"
    by (rule tick_change_cause)
next
  show "last_ok (snd (tick f now s)) = (if yields_snapshot f then now else last_ok s)"
    by (rule tick_last_ok)
qed

theorem availability_invariant_witness:
  "avail_state (snd (main_loop 0
      [(Inr [], 200), (Inr [], 400), (Inr [(PStr ''door'', PBool True)], 450)])) = ''online'' \<and>
   avail_state (snd (main_loop 0 [(Inr [], 200), (Inr [], 400)])) = ''offline''"
proof -
  let ?f = "Inr [(PStr ''door'', PBool True)] :: exn + pydict"
  let ?e = "Inr [] :: exn + pydict"
  have srt: "sorted ((0::real) # map snd ([(?e, 200), (?e, 400)] @ [(?f, 450)])) \<and> fetch_returned ?f"
    by simp
  have recent: "snapshot_within OFFLINE_AFTER ([(?e, 200), (?e, 400)] @ [(?f, 450)]) 450"
    by (simp add: snapshot_within_def OFFLINE_AFTER_def)
  have on: "avail_state (snd (main_loop 0 ([(?e, 200), (?e, 400)] @ [(?f, 450)]))) = ''online''"
    using availability_invariant [of 0 "[(?e, 200), (?e, 400)]" ?f 450] srt recent by blast
  have srt2: "sorted ((0::real) # map snd ([(?e, 200)] @ [(?e, 400)])) \<and> fetch_returned ?e"
    by simp
  have stale: "\<not> (snapshot_within OFFLINE_AFTER ([(?e, 200)] @ [(?e, 400)]) 400 \<or>
      (400::real) - 0 \<le> OFFLINE_AFTER)"
    by (simp add: snapshot_within_def OFFLINE_AFTER_def)
  have "avail_state (snd (main_loop 0 ([(?e, 200)] @ [(?e, 400)]))) \<noteq> ''online''"
    using availability_invariant [of 0 "[(?e, 200)]" ?e 400] srt2 stale by blast
  moreover have "avail_state (snd (main_loop 0 ([(?e, 200)] @ [(?e, 400)]))) = ''offline'' \<or>
      avail_state (snd (main_loop 0 ([(?e, 200)] @ [(?e, 400)]))) = ''online''"
    by (simp add: main_loop_def tick_def initial_state_def OFFLINE_AFTER_def)
  ultimately have off: "avail_state (snd (main_loop 0 ([(?e, 200)] @ [(?e, 400)]))) = ''offline''"
    by blast
  from on off show ?thesis by simp
qed

text \<open>
  Claim C3 as stated reads "fewer than \<^verbatim>\<open>OFFLINE_AFTER\<close> seconds have elapsed since startup".
  At a pass exactly \<^verbatim>\<open>OFFLINE_AFTER\<close> seconds after startup, with no snapshot so far, the loop
  is still \<open>online\<close> (its test is \<^verbatim>\<open>time.time() - last_ok > OFFLINE_AFTER\<close>), although no
  snapshot was obtained and the elapsed time is not fewer than \<^verbatim>\<open>OFFLINE_AFTER\<close>.
\<close>

theorem availability_strict_counterexample:
  "avail_state (snd (main_loop 0 [(Inr [], 300)])) = ''online'' \<and>
   \<not> (snapshot_within OFFLINE_AFTER [(Inr [], 300)] 300 \<or> (300::real) - 0 < OFFLINE_AFTER)"
  by (simp add: main_loop_def tick_def initial_state_def OFFLINE_AFTER_def snapshot_within_def)

lemma tick_state_pub:
  "by_code \<noteq> [] \<Longrightarrow> pick_battery by_code = Inr batt \<Longrightarrow>
   on_topic STATE_TOPIC (fst (tick (Inr by_code) now s)) =
     (case pick_boolean by_code of
        Some b \<Rightarrow> [if b then ''ON'' else ''OFF'']
      | None \<Rightarrow> [])"
  by (auto simp: tick_def Let_def on_topic_def split: prod.splits option.splits)

lemma tick_batt_pub:
  "by_code \<noteq> [] \<Longrightarrow> pick_battery by_code = Inr batt \<Longrightarrow>
   on_topic BATT_TOPIC (fst (tick (Inr by_code) now s)) =
     (case batt of Some n \<Rightarrow> [py_str_int n] | None \<Rightarrow> [])"
  by (auto simp: tick_def Let_def on_topic_def split: prod.splits option.splits)

lemma run_two:
  "fst (run [(f1, t1), (f2, t2)] s) = fst (tick f1 t1 s) @ fst (tick f2 t2 (snd (tick f1 t1 s)))"
  by (simp split: prod.splits)

text \<open>
  What holds of the publishes when \<^verbatim>\<open>pick_battery\<close> returns. On a pass whose fetch yields a
  non-empty snapshot, the state topic receives exactly \<open>ON\<close> or \<open>OFF\<close> when \<^verbatim>\<open>pick_boolean\<close>
  finds a value and nothing otherwise, and the battery topic receives exactly the decimal
  string of the integer when \<^verbatim>\<open>pick_battery\<close> finds one and nothing otherwise: each field on
  its own, whatever the loop state and whatever was published before. Two consecutive such
  passes with the same extracted values publish the same payloads twice.
  \<^verbatim>\<open>{doorcontact_state: 1, battery_percentage: 87}\<close> publishes \<open>ON\<close> and \<open>87\<close>, and availability
  stays \<open>online\<close> with no availability publish.
\<close>

lemma publishes_every_successful_tick:
  "(by_code \<noteq> [] \<and> pick_battery by_code = Inr batt \<longrightarrow>
      on_topic STATE_TOPIC (fst (tick (Inr by_code) now s)) =
        (case pick_boolean by_code of
           Some b \<Rightarrow> [if b then ''ON'' else ''OFF'']
         | None \<Rightarrow> []) \<and>
      on_topic BATT_TOPIC (fst (tick (Inr by_code) now s)) =
        (case batt of Some n \<Rightarrow> [py_str_int n] | None \<Rightarrow> [])) \<and>
   (by_code \<noteq> [] \<and> by_code' \<noteq> [] \<and> pick_battery by_code = Inr batt \<and>
    pick_boolean by_code' = pick_boolean by_code \<and>
    pick_battery by_code' = pick_battery by_code \<longrightarrow>
      on_topic STATE_TOPIC (fst (run [(Inr by_code, now), (Inr by_code', now')] s)) =
        on_topic STATE_TOPIC (fst (tick (Inr by_code) now s)) @
        on_topic STATE_TOPIC (fst (tick (Inr by_code) now s)) \<and>
      on_topic BATT_TOPIC (fst (run [(Inr by_code, now), (Inr by_code', now')] s)) =
        on_topic BATT_TOPIC (fst (tick (Inr by_code) now s)) @
        on_topic BATT_TOPIC (fst (tick (Inr by_code) now s))) \<and>
   tick (Inr [(PStr ''doorcontact_state'', PInt 1), (PStr ''battery_percentage'', PInt 87)])
       now (initial_state t0) =
     ([(STATE_TOPIC, ''ON''), (BATT_TOPIC, ''87'')],
      \<lparr>last_ok = now, avail_state = ''online''\<rparr>)"
proof (intro conjI impI)
  assume "by_code \<noteq> [] \<and> pick_battery by_code = Inr batt"
  then show "on_topic STATE_TOPIC (fst (tick (Inr by_code) now s)) =
        (case pick_boolean by_code of
           Some b \<Rightarrow> [if b then ''ON'' else ''OFF'']
         | None \<Rightarrow> [])"
    using tick_state_pub by blast
next
  assume "by_code \<noteq> [] \<and> pick_battery by_code = Inr batt"
  then show "on_topic BATT_TOPIC (fst (tick (Inr by_code) now s)) =
        (case batt of Some n \<Rightarrow> [py_str_int n] | None \<Rightarrow> [])"
    using tick_batt_pub by blast
next
  assume h: "by_code \<noteq> [] \<and> by_code' \<noteq> [] \<and> pick_battery by_code = Inr batt \<and>
    pick_boolean by_code' = pick_boolean by_code \<and>
    pick_battery by_code' = pick_battery by_code"
  then have b': "pick_battery by_code' = Inr batt" by simp
  show "on_topic STATE_TOPIC (fst (run [(Inr by_code, now), (Inr by_code', now')] s)) =
        on_topic STATE_TOPIC (fst (tick (Inr by_code) now s)) @
        on_topic STATE_TOPIC (fst (tick (Inr by_code) now s))"
  proof -
    have 1: "on_topic STATE_TOPIC (fst (tick (Inr by_code') now' (snd (tick (Inr by_code) now s)))) =
        (case pick_boolean by_code' of
           Some b \<Rightarrow> [if b then ''ON'' else ''OFF'']
         | None \<Rightarrow> [])"
      using h b' tick_state_pub by blast
    have 2: "on_topic STATE_TOPIC (fst (tick (Inr by_code) now s)) =
        (case pick_boolean by_code of
           Some b \<Rightarrow> [if b then ''ON'' else ''OFF'']
         | None \<Rightarrow> [])"
      using h tick_state_pub by blast
    have 3: "pick_boolean by_code' = pick_boolean by_code"
      using h by blast
    show ?thesis
      unfolding run_two on_topic_append 1 2 3 ..
  qed
next
  assume h: "by_code \<noteq> [] \<and> by_code' \<noteq> [] \<and> pick_battery by_code = Inr batt \<and>
    pick_boolean by_code' = pick_boolean by_code \<and>
    pick_battery by_code' = pick_battery by_code"
  then have b': "pick_battery by_code' = Inr batt" by simp
  show "on_topic BATT_TOPIC (fst (run [(Inr by_code, now), (Inr by_code', now')] s)) =
        on_topic BATT_TOPIC (fst (tick (Inr by_code) now s)) @
        on_topic BATT_TOPIC (fst (tick (Inr by_code) now s))"
  proof -
    have 1: "on_topic BATT_TOPIC (fst (tick (Inr by_code') now' (snd (tick (Inr by_code) now s)))) =
        (case batt of Some n \<Rightarrow> [py_str_int n] | None \<Rightarrow> [])"
      using h b' tick_batt_pub by blast
    have 2: "on_topic BATT_TOPIC (fst (tick (Inr by_code) now s)) =
        (case batt of Some n \<Rightarrow> [py_str_int n] | None \<Rightarrow> [])"
      using h tick_batt_pub by blast
    show ?thesis
      unfolding run_two on_topic_append 1 2 ..
  qed
next
  have b: "pick_boolean [(PStr ''doorcontact_state'', PInt 1), (PStr ''battery_percentage'', PInt 87)]
      = Some True"
    by code_simp
  have n: "pick_battery [(PStr ''doorcontact_state'', PInt 1), (PStr ''battery_percentage'', PInt 87)]
      = Inr (Some 87)"
    by (simp add: pick_battery_def numeric_at_def dict_lookup_def returned_int_def)
  have d: "py_str_int 87 = ''87''"
    by code_simp
  show "tick (Inr [(PStr ''doorcontact_state'', PInt 1), (PStr ''battery_percentage'', PInt 87)])
       now (initial_state t0) =
     ([(STATE_TOPIC, ''ON''), (BATT_TOPIC, ''87'')],
      \<lparr>last_ok = now, avail_state = ''online''\<rparr>)"
    by (simp add: tick_def b n d initial_state_def)
qed

text \<open>
  Claim C8 says that on every pass whose fetch yields a non-empty snapshot the loop
  publishes each value the extractor finds, a gap in one field suppressing only that
  field's publish. On \<^verbatim>\<open>{doorcontact_state: true, battery_percentage: 1e999}\<close> \<^verbatim>\<open>pick_boolean\<close>
  finds \<open>True\<close>, \<^verbatim>\<open>pick_battery\<close> raises \<^verbatim>\<open>OverflowError\<close> at line 248, the \<^verbatim>\<open>except\<close> of the loop
  catches it, and the pass ends before the state publish of line 251: nothing is
  published, although \<^verbatim>\<open>last_ok\<close> was updated.
\<close>

theorem contact_dropped_when_battery_raises:
  "pick_boolean [(PStr ''doorcontact_state'', PBool True),
                 (PStr ''battery_percentage'', PInf False)] = Some True \<and>
   pick_battery [(PStr ''doorcontact_state'', PBool True),
                 (PStr ''battery_percentage'', PInf False)] = Inl OverflowError \<and>
   tick (Inr [(PStr ''doorcontact_state'', PBool True),
              (PStr ''battery_percentage'', PInf False)]) now (initial_state t0) =
     ([], \<lparr>last_ok = now, avail_state = ''online''\<rparr>)"
proof -
  let ?d = "[(PStr ''doorcontact_state'', PBool True), (PStr ''battery_percentage'', PInf False)]"
  have b: "pick_boolean ?d = Some True"
    by code_simp
  have n: "pick_battery ?d = Inl OverflowError"
    by (simp add: pick_battery_def numeric_at_def dict_lookup_def returned_int_def)
  have "tick (Inr ?d) now (initial_state t0) = ([], \<lparr>last_ok = now, avail_state = ''online''\<rparr>)"
    by (simp add: tick_def b n initial_state_def)
  with b n show ?thesis by simp
qed

section \<open>Properties of signing and of the query string\<close>

lemma token_segment_held:
  "token_segment \<lparr>base_url = u, access_id = a, access_key = k, access_token = held token\<rparr> use_token
     = Inr (if use_token \<and> token \<noteq> Some [] then token else None)"
  by (cases token) (auto simp: token_segment_def held_def)

lemma spec_message_empty: "spec_message a (Some []) t nc s = spec_message a None t nc s"
  by (simp add: spec_message_def)

text \<open>
  Claim C1. For every request description, the \<^verbatim>\<open>sign\<close> header that \<^verbatim>\<open>_request\<close> builds is the
  reference signature: the content hash is the SHA-256 hex digest of the body bytes, of
  the empty string for a GET or a request without body; the string to sign is the
  method, the hash, an empty line and the path with its sorted query, separated by line
  feeds; the message is the client id, the token when \<^verbatim>\<open>use_token\<close> is set and a token is held,
  the timestamp, the nonce and the string to sign; the signature is the upper-cased hex
  HMAC-SHA256 of the message under the client secret. The signature is a function of these
  inputs, so equal inputs give equal signatures.
\<close>

theorem signature_matches_reference:
  "\<exists>rq. build_request L
           \<lparr>base_url = u, access_id = client_id, access_key = client_secret,
            access_token = held token\<rparr>
           method path ps body use_token x = Inr rq \<and>
        map_of (headers rq) ''sign'' =
          Some (spec_signature L client_secret
                 (spec_message client_id (if use_token then token else None)
                    (py_str_int (now_ms x)) (nonce x)
                    (spec_string_to_sign (py_upper method)
                       (spec_content_hash L
                          (if py_upper method = ''GET'' \<or> body = PNone then None
                           else Some (utf8_encode (json_dumps L body))))
                       (full_path_of path ps))))"
proof -
  let ?c = "\<lparr>base_url = u, access_id = client_id, access_key = client_secret,
            access_token = held token\<rparr>"
  let ?sts = "spec_string_to_sign (py_upper method)
                       (spec_content_hash L
                          (if py_upper method = ''GET'' \<or> body = PNone then None
                           else Some (utf8_encode (json_dumps L body))))
                       (full_path_of path ps)"
  have sts: "string_to_sign_of L (py_upper method) (body_str_of L (py_upper method) body)
      (full_path_of path ps) = ?sts"
    by (simp add: string_to_sign_of_def spec_string_to_sign_def spec_content_hash_def
        body_str_of_def utf8_encode_def)
  have msg: "message_of ?c (if use_token \<and> token \<noteq> Some [] then token else None) t nc s =
      spec_message client_id (if use_token then token else None) t nc s" for t nc s
    by (cases token) (auto simp: message_of_def spec_message_def)
  show ?thesis
    by (simp add: build_request_def Let_def token_segment_held sts msg headers_of_def
        sign_of_def spec_signature_def)
qed

theorem signature_matches_reference_witness:
  "\<exists>rq. build_request
           \<lparr>sha256_hex = (\<lambda>b. ''e3b0''), hmac_sha256_hex = (\<lambda>k m. m), json_dumps = (\<lambda>v. ''{}'')\<rparr>
           \<lparr>base_url = ''https://h'', access_id = ''id'', access_key = ''key'',
            access_token = PStr ''tok''\<rparr>
           ''get'' ''v2.0/x'' [(''b'', QInt 2), (''a'', QInt 1)] PNone True
           \<lparr>now_ms = 1700, nonce = ''n1'', response = ConnError []\<rparr> = Inr rq \<and>
        map_of (headers rq) ''sign'' =
          Some (''IDTOK1700N1GET'' @ [CHR 0x0A] @ ''E3B0'' @ [CHR 0x0A, CHR 0x0A] @ ''/V2.0/X?A=1&B=2'')"
proof -
  let ?L = "\<lparr>sha256_hex = (\<lambda>b. ''e3b0''), hmac_sha256_hex = (\<lambda>k m. m), json_dumps = (\<lambda>v. ''{}'')\<rparr>"
  let ?x = "\<lparr>now_ms = 1700, nonce = ''n1'', response = ConnError []\<rparr>"
  have up: "py_upper ''get'' = ''GET''"
    by code_simp
  have t: "py_str_int 1700 = ''1700''"
    by code_simp
  have fp: "full_path_of ''v2.0/x'' [(''b'', QInt 2), (''a'', QInt 1)] = ''/v2.0/x?a=1&b=2''"
    by code_simp
  have sig: "spec_signature ?L ''key''
      (spec_message ''id'' (Some ''tok'') ''1700'' ''n1''
         (spec_string_to_sign ''GET'' (spec_content_hash ?L None) ''/v2.0/x?a=1&b=2'')) =
      ''IDTOK1700N1GET'' @ [CHR 0x0A] @ ''E3B0'' @ [CHR 0x0A, CHR 0x0A] @ ''/V2.0/X?A=1&B=2''"
    by code_simp
  from signature_matches_reference [of ?L "''https://h''" "''id''" "''key''" "Some ''tok''"
      "''get''" "''v2.0/x''" "[(''b'', QInt 2), (''a'', QInt 1)]" PNone True ?x]
  show ?thesis
    by (simp only: up t fp sig held_def option.case if_True simp_thms exchange.simps)
qed

lemma sorted_items_cong: "mset ps = mset ps' \<Longrightarrow> sorted_items ps = sorted_items ps'"
proof -
  assume eq: "mset ps = mset ps'"
  let ?f = "\<lambda>(k, v). (k, py_str v)"
  have "mset (sort (map ?f ps)) = mset (map ?f ps')"
    by (simp add: eq)
  then have "sort (map ?f ps') = sort (map ?f ps)"
    by (rule properties_for_sort) simp
  then show ?thesis
    by (simp add: sorted_items_def)
qed

lemma mset_eq_Nil_iff: "mset ps = mset ps' \<Longrightarrow> ps = [] \<longleftrightarrow> ps' = []"
  by (cases ps; cases ps') simp_all

lemma query_string_cong:
  assumes "mset ps = mset ps'"
  shows "query_string ps = query_string ps'"
proof -
  have items: "sorted_items ps = sorted_items ps'"
    using assms by (rule sorted_items_cong)
  have empty: "ps = [] \<longleftrightarrow> ps' = []"
    using assms by (rule mset_eq_Nil_iff)
  show ?thesis
    unfolding query_string_def items using empty by auto
qed

lemma full_path_cong:
  assumes "mset ps = mset ps'"
  shows "full_path_of path ps = full_path_of path ps'"
  unfolding full_path_of_def query_string_cong [OF assms] ..

lemma build_request_cong:
  assumes "mset ps = mset ps'"
  shows "build_request L c method path ps body use_token x =
   build_request L c method path ps' body use_token x"
  unfolding build_request_def full_path_cong [OF assms] ..

lemma sorted_map_fst: "sorted (xs :: ('a::linorder \<times> 'b::linorder) list) \<Longrightarrow> sorted (map fst xs)"
  by (induction xs) (auto simp: less_eq_prod_def)

lemma sorted_items_keys: "sorted (map fst (sorted_items ps))"
  by (simp add: sorted_items_def sorted_map_fst)

lemma join_nonempty: "xs \<noteq> [] \<Longrightarrow> hd xs \<noteq> [] \<Longrightarrow> join sep xs \<noteq> []"
  by (induction sep xs rule: join.induct) auto

lemma sorted_items_Nil_iff: "sorted_items ps = [] \<longleftrightarrow> ps = []"
proof
  have len: "length (sorted_items ps) = length ps"
    by (simp add: sorted_items_def)
  assume "sorted_items ps = []"
  then have "length ps = 0"
    using len by simp
  then show "ps = []"
    by simp
next
  assume "ps = []"
  then show "sorted_items ps = []"
    by (simp add: sorted_items_def)
qed

lemma query_string_nonempty:
  assumes "ps \<noteq> []"
  shows "query_string ps \<noteq> []"
proof -
  obtain k v rest where items: "sorted_items ps = (k, v) # rest"
    using assms sorted_items_Nil_iff [of ps] by (cases "sorted_items ps") auto
  have "join ''&'' (map (\<lambda>(k, v). quote_plus k @ ''='' @ quote_plus v) ((k, v) # rest)) \<noteq> []"
    by (rule join_nonempty) simp_all
  then show ?thesis
    using assms by (simp add: query_string_def urlencode_def items)
qed

lemma full_path_query:
  "ps \<noteq> [] \<Longrightarrow>
   full_path_of path ps =
     norm_path path @ ''?'' @
       join ''&'' (map (\<lambda>(k, v). quote_plus k @ ''='' @ quote_plus v) (sorted_items ps))"
  using query_string_nonempty [of ps]
  by (simp add: full_path_of_def Let_def) (simp add: query_string_def urlencode_def)

text \<open>
  Claim C7. Two \<^verbatim>\<open>params\<close> dicts with the same items in a different order give the same
  path with query, hence the same string to sign, signature and request, for a fixed
  timestamp, nonce and token. The items of the query are those of \<^verbatim>\<open>params\<close> with the
  values passed through \<^verbatim>\<open>str\<close>, sorted by key, each written \<^verbatim>\<open>key=value\<close> (percent-encoded
  by \<^verbatim>\<open>urlencode\<close>) and joined by \<^verbatim>\<open>&\<close> after the path and a question mark.
\<close>

theorem query_order_independent:
  "(mset ps = mset ps' \<longrightarrow>
      full_path_of path ps = full_path_of path ps' \<and>
      build_request L c method path ps body use_token x =
        build_request L c method path ps' body use_token x) \<and>
   mset (sorted_items ps) = mset (map (\<lambda>(k, v). (k, py_str v)) ps) \<and>
   sorted (map fst (sorted_items ps)) \<and>
   (ps \<noteq> [] \<longrightarrow>
      full_path_of path ps =
        norm_path path @ ''?'' @
          join ''&'' (map (\<lambda>(k, v). quote_plus k @ ''='' @ quote_plus v) (sorted_items ps)))"
proof (intro conjI impI)
  assume "mset ps = mset ps'"
  then show "full_path_of path ps = full_path_of path ps'"
    by (rule full_path_cong)
next
  assume "mset ps = mset ps'"
  then show "build_request L c method path ps body use_token x =
        build_request L c method path ps' body use_token x"
    by (rule build_request_cong)
next
  show "mset (sorted_items ps) = mset (map (\<lambda>(k, v). (k, py_str v)) ps)"
    by (simp add: sorted_items_def)
next
  show "sorted (map fst (sorted_items ps))"
    by (rule sorted_items_keys)
next
  assume "ps \<noteq> []"
  then show "full_path_of path ps =
        norm_path path @ ''?'' @
          join ''&'' (map (\<lambda>(k, v). quote_plus k @ ''='' @ quote_plus v) (sorted_items ps))"
    by (rule full_path_query)
qed

theorem query_order_independent_witness:
  "full_path_of ''/p'' [(''b'', QInt 2), (''a'', QInt 1)] = ''/p?a=1&b=2'' \<and>
   full_path_of ''/p'' [(''a'', QInt 1), (''b'', QInt 2)] = ''/p?a=1&b=2''"
proof -
  have perm: "mset [(''b'', QInt 2), (''a'', QInt 1)] = mset [(''a'', QInt 1), (''b'', QInt 2)]"
    by simp
  have same: "full_path_of ''/p'' [(''b'', QInt 2), (''a'', QInt 1)] =
      full_path_of ''/p'' [(''a'', QInt 1), (''b'', QInt 2)]"
    using query_order_independent [of "[(''b'', QInt 2), (''a'', QInt 1)]"
        "[(''a'', QInt 1), (''b'', QInt 2)]" "''/p''"] perm
    by blast
  have val: "full_path_of ''/p'' [(''a'', QInt 1), (''b'', QInt 2)] = ''/p?a=1&b=2''"
    by code_simp
  from same val show ?thesis by simp
qed

section \<open>Properties of the client\<close>

lemma request_plain:
  "\<not> (use_token \<and> retry) \<Longrightarrow>
   request (Suc n) L c w method path ps body use_token retry =
     Some (request_once L c w method path ps body use_token retry)"
  by (auto simp: request_once_def split: prod.splits attempt.splits)

lemma connect_Suc: "connect (Suc n) L c w = Some (connect_once L c w)"
proof -
  have plain: "request (Suc n) L c (w\<lparr>trace := trace w @ [Enter_connect]\<rparr>)
      ''GET'' ''/v1.0/token'' [(''grant_type'', QInt 1)] PNone False True =
    Some (request_once L c (w\<lparr>trace := trace w @ [Enter_connect]\<rparr>)
      ''GET'' ''/v1.0/token'' [(''grant_type'', QInt 1)] PNone False True)"
    by (rule request_plain) simp
  show ?thesis
    unfolding connect.simps plain connect_once_def
    by (simp split: prod.splits sum.splits)
qed

lemma request_Suc_Suc:
  "request (Suc (Suc n)) L c w method path ps body use_token retry =
     (case try_once L c w method path ps body use_token retry of
        (Raised e, w1) \<Rightarrow> Some (Inl e, c, w1)
      | (Returned v, w1) \<Rightarrow> Some (Inr v, c, w1)
      | (Parsed data, w1) \<Rightarrow>
          if use_token \<and> is_1010 data \<and> retry then
            (case connect_once L c w1 of
               (Inl e, c2, w2) \<Rightarrow> Some (Inl e, c2, w2)
             | (Inr cv, c2, w2) \<Rightarrow>
                 if is_success cv
                 then Some (request_once L c2 w2 (py_upper method) (norm_path path) ps body
                        True False)
                 else Some (Inr data, c2, w2))
          else Some (Inr data, c, w1))"
proof -
  have retry: "request (Suc n) L c2 w2 (py_upper method) (norm_path path) ps body True False =
      Some (request_once L c2 w2 (py_upper method) (norm_path path) ps body True False)"
    for c2 w2
    by (rule request_plain) simp
  show ?thesis
    unfolding request.simps(2) [of "Suc n"] connect_Suc retry
    by (simp split: prod.splits attempt.splits sum.splits)
qed

lemma ex_triple: "\<exists>a b c. t = (a, b, c)"
  using prod_cases3 [of t] by blast

lemma request_two_total:
  "request (Suc (Suc 0)) L c w method path ps body use_token retry \<noteq> None"
  unfolding request_Suc_Suc
  by (simp add: ex_triple split: prod.splits attempt.splits sum.splits)

lemma request_more_fuel:
  "request (Suc (Suc n)) L c w method path ps body use_token retry =
   request (Suc (Suc 0)) L c w method path ps body use_token retry"
  unfolding request_Suc_Suc ..

lemma try_once_built:
  "build_request L c method path ps body use_token (script w (step w)) = Inr rq \<Longrightarrow>
   try_once L c w method path ps body use_token retry =
     (case response (script w (step w)) of
        ConnError e \<Rightarrow> Returned (http_error e)
      | NonJson status text \<Rightarrow> Parsed (non_json status text)
      | Json v \<Rightarrow> Parsed v,
      sent (entered w use_token retry) rq)"
  by (simp add: try_once_def Let_def split: http_result.splits)

lemma try_once_raised:
  "build_request L c method path ps body use_token (script w (step w)) = Inl e \<Longrightarrow>
   try_once L c w method path ps body use_token retry = (Raised e, entered w use_token retry)"
  by (simp add: try_once_def Let_def)

lemma build_request_unauth:
  "\<exists>rq. build_request L c method path ps body False x = Inr rq"
  by (simp add: build_request_def Let_def token_segment_def)

lemma trace_entered [simp]: "trace (entered w u r) = trace w @ [Enter_request u r]"
  by (simp add: entered_def)

lemma trace_sent [simp]: "trace (sent w rq) = trace w @ [Http_get rq]"
  by (simp add: sent_def)

lemma script_entered [simp]: "script (entered w u r) = script w"
  by (simp add: entered_def)

lemma script_sent [simp]: "script (sent w rq) = script w"
  by (simp add: sent_def)

lemma step_entered [simp]: "step (entered w u r) = Suc (step w)"
  by (simp add: entered_def)

lemma step_sent [simp]: "step (sent w rq) = step w"
  by (simp add: sent_def)

lemma try_once_world:
  "trace (snd (try_once L c w method path ps body use_token retry)) =
     trace w @ attempt_events L c w method path ps body use_token retry \<and>
   script (snd (try_once L c w method path ps body use_token retry)) = script w \<and>
   step (snd (try_once L c w method path ps body use_token retry)) = Suc (step w)"
  by (simp add: try_once_def Let_def attempt_events_def split: sum.splits http_result.splits)

lemma request_once_snd:
  "snd (snd (request_once L c w method path ps body use_token retry)) =
   snd (try_once L c w method path ps body use_token retry)"
  by (auto simp: request_once_def split: prod.splits attempt.splits)

lemma request_once_world:
  "trace (snd (snd (request_once L c w method path ps body use_token retry))) =
     trace w @ attempt_events L c w method path ps body use_token retry \<and>
   script (snd (snd (request_once L c w method path ps body use_token retry))) = script w \<and>
   step (snd (snd (request_once L c w method path ps body use_token retry))) = Suc (step w)"
  unfolding request_once_snd by (rule try_once_world)

lemma connect_once_snd:
  "snd (snd (connect_once L c w)) =
   snd (snd (request_once L c (w\<lparr>trace := trace w @ [Enter_connect]\<rparr>)
      ''GET'' ''/v1.0/token'' [(''grant_type'', QInt 1)] PNone False True))"
  by (auto simp: connect_once_def split: prod.splits sum.splits)

lemma connect_once_world:
  "trace (snd (snd (connect_once L c w))) =
     trace w @ Enter_connect #
       attempt_events L c (w\<lparr>trace := trace w @ [Enter_connect]\<rparr>)
         ''GET'' ''/v1.0/token'' [(''grant_type'', QInt 1)] PNone False True \<and>
   script (snd (snd (connect_once L c w))) = script w \<and>
   step (snd (snd (connect_once L c w))) = Suc (step w)"
  unfolding connect_once_snd
  using request_once_world [of L c "w\<lparr>trace := trace w @ [Enter_connect]\<rparr>"
      "''GET''" "''/v1.0/token''" "[(''grant_type'', QInt 1)]" PNone False True]
  by simp

lemma count_connect_attempt [simp]:
  "count_connect (attempt_events L c w method path ps body use_token retry) = 0"
  by (simp add: count_connect_def attempt_events_def split: sum.splits)

lemma count_retry_attempt:
  "count_retry (attempt_events L c w method path ps body use_token retry) =
     (if use_token \<and> \<not> retry then 1 else 0)"
  by (auto simp: count_retry_def attempt_events_def split: sum.splits)

lemma count_connect_append [simp]:
  "count_connect (xs @ ys) = count_connect xs + count_connect ys"
  by (simp add: count_connect_def)

lemma count_retry_append [simp]:
  "count_retry (xs @ ys) = count_retry xs + count_retry ys"
  by (simp add: count_retry_def)

lemma count_connect_Cons [simp]:
  "count_connect (e # xs) = (if e = Enter_connect then 1 else 0) + count_connect xs"
  by (simp add: count_connect_def)

lemma count_retry_Cons [simp]:
  "count_retry (e # xs) = (if e = Enter_request True False then 1 else 0) + count_retry xs"
  by (simp add: count_retry_def)

lemma count_Nil [simp]: "count_connect [] = 0" "count_retry [] = 0"
  by (simp_all add: count_connect_def count_retry_def)

lemma new_events_append: "trace w' = trace w @ evs \<Longrightarrow> new_events w w' = evs"
  by (simp add: new_events_def)

lemma connect_once_events:
  "new_events w (snd (snd (connect_once L c w))) =
     Enter_connect #
       attempt_events L c (w\<lparr>trace := trace w @ [Enter_connect]\<rparr>)
         ''GET'' ''/v1.0/token'' [(''grant_type'', QInt 1)] PNone False True"
  by (rule new_events_append) (simp add: connect_once_world)

lemma upper_GET: "py_upper ''GET'' = ''GET''"
  by code_simp

lemma get_on_1010:
  assumes built: "build_request L c ''GET'' path ps PNone True (script w (step w)) = Inr rq"
    and reply: "response (script w (step w)) = Json data"
    and invalid: "is_1010 data"
    and co: "connect_once L c (sent (entered w True True) rq) = (cres, c1, w1)"
  shows "get (Suc (Suc 0)) L c w path ps =
     (if reauth_ok cres
      then Some (request_once L c1 w1 ''GET'' (norm_path path) ps PNone True False)
      else Some (case cres of Inl e \<Rightarrow> Inl e | Inr cv \<Rightarrow> Inr data, c1, w1))"
proof -
  have att: "try_once L c w ''GET'' path ps PNone True True =
      (Parsed data, sent (entered w True True) rq)"
    using try_once_built [OF built, of True] reply by simp
  show ?thesis
    unfolding get_def request_Suc_Suc att
    using invalid co by (simp add: upper_GET reauth_ok_def split: sum.splits)
qed

lemma connect_once_counts:
  assumes co: "connect_once L c w = (cres, c1, w1)"
  shows "count_connect (new_events w w1) = 1" and "count_retry (new_events w w1) = 0"
proof -
  have ev: "new_events w w1 =
      Enter_connect #
       attempt_events L c (w\<lparr>trace := trace w @ [Enter_connect]\<rparr>)
         ''GET'' ''/v1.0/token'' [(''grant_type'', QInt 1)] PNone False True"
    using connect_once_events [of w L c] co by simp
  show "count_connect (new_events w w1) = 1"
    unfolding ev by simp
  show "count_retry (new_events w w1) = 0"
    unfolding ev by (simp add: count_retry_attempt)
qed

lemma new_events_trans:
  "trace w1 = trace w @ xs \<Longrightarrow> trace w2 = trace w1 @ ys \<Longrightarrow> new_events w w2 = xs @ ys"
  by (simp add: new_events_def)

lemma connect_once_trace:
  "connect_once L c w = (cres, c1, w1) \<Longrightarrow> trace w1 = trace w @ new_events w w1"
  using connect_once_world [of L c w] by (simp add: new_events_def)

lemma request_once_trace:
  "request_once L c w method path ps body use_token retry = (res, c', w') \<Longrightarrow>
   trace w' = trace w @ attempt_events L c w method path ps body use_token retry"
  using request_once_world [of L c w "method" path ps body use_token retry] by simp

lemma get_refresh_core:
  assumes built: "build_request L c ''GET'' path ps PNone True (script w (step w)) = Inr rq"
    and reply: "response (script w (step w)) = Json data"
    and invalid: "is_1010 data"
  shows "\<exists>cres c1 w1 res c' w'.
       connect (Suc 0) L c (sent (entered w True True) rq) = Some (cres, c1, w1) \<and>
       get (Suc (Suc 0)) L c w path ps = Some (res, c', w') \<and>
       count_connect (new_events w w') = 1 \<and>
       count_retry (new_events w w') = (if reauth_ok cres then 1 else 0) \<and>
       (reauth_ok cres \<longrightarrow>
          request (Suc 0) L c1 w1 ''GET'' (norm_path path) ps PNone True False =
            Some (res, c', w') \<and>
          count_connect (new_events w1 w') = 0) \<and>
       (\<forall>cv. cres = Inr cv \<and> \<not> is_success cv \<longrightarrow> res = Inr data \<and> c' = c1 \<and> w' = w1)"
proof -
  let ?wa = "sent (entered w True True) rq"
  obtain cres c1 w1 where co: "connect_once L c ?wa = (cres, c1, w1)"
    using prod_cases3 by blast
  have con: "connect (Suc 0) L c ?wa = Some (cres, c1, w1)"
    by (simp only: connect_Suc co)
  have tr0: "trace ?wa = trace w @ [Enter_request True True, Http_get rq]"
    by simp
  have tr1: "trace w1 = trace ?wa @ new_events ?wa w1"
    using co by (rule connect_once_trace)
  have ev1: "new_events w w1 = [Enter_request True True, Http_get rq] @ new_events ?wa w1"
    using tr0 tr1 by (rule new_events_trans)
  have cc1: "count_connect (new_events w w1) = 1"
    unfolding ev1 using connect_once_counts(1) [OF co] by simp
  have cr1: "count_retry (new_events w w1) = 0"
    unfolding ev1 using connect_once_counts(2) [OF co] by simp
  note g = get_on_1010 [OF built reply invalid co]
  show ?thesis
  proof (cases "reauth_ok cres")
    case False
    let ?res = "case cres of Inl e \<Rightarrow> Inl e | Inr cv \<Rightarrow> Inr data"
    have "get (Suc (Suc 0)) L c w path ps = Some (?res, c1, w1)"
      using g False by simp
    moreover have "\<forall>cv. cres = Inr cv \<and> \<not> is_success cv \<longrightarrow> ?res = Inr data \<and> c1 = c1 \<and> w1 = w1"
      by simp
    ultimately show ?thesis
      using con cc1 cr1 False by (intro exI [of _ cres] exI [of _ c1] exI [of _ w1]
          exI [of _ ?res]) simp
  next
    case True
    obtain res c' w' where ro:
      "request_once L c1 w1 ''GET'' (norm_path path) ps PNone True False = (res, c', w')"
      using prod_cases3 by blast
    have gt: "get (Suc (Suc 0)) L c w path ps = Some (res, c', w')"
      using g True ro by simp
    have rq1: "request (Suc 0) L c1 w1 ''GET'' (norm_path path) ps PNone True False =
        Some (res, c', w')"
      using request_plain [of True False 0 L c1 w1 "''GET''" "norm_path path" ps PNone] ro
      by simp
    have tr2: "trace w' = trace w1 @
        attempt_events L c1 w1 ''GET'' (norm_path path) ps PNone True False"
      using ro by (rule request_once_trace)
    have "trace w1 = trace w @ ([Enter_request True True, Http_get rq] @ new_events ?wa w1)"
      by (subst tr1) simp
    then have tr01: "trace w1 = trace w @ new_events w w1"
      unfolding ev1 .
    have ev2: "new_events w w' = new_events w w1 @
        attempt_events L c1 w1 ''GET'' (norm_path path) ps PNone True False"
      using tr01 tr2 by (rule new_events_trans)
    have ev12: "new_events w1 w' =
        attempt_events L c1 w1 ''GET'' (norm_path path) ps PNone True False"
      using tr2 by (rule new_events_append)
    have cc: "count_connect (new_events w w') = 1"
      unfolding ev2 using cc1 by simp
    have cr: "count_retry (new_events w w') = 1"
      unfolding ev2 using cr1 by (simp add: count_retry_attempt)
    have c0: "count_connect (new_events w1 w') = 0"
      unfolding ev12 by simp
    have nots: "\<forall>cv. cres = Inr cv \<and> \<not> is_success cv \<longrightarrow> res = Inr data \<and> c' = c1 \<and> w' = w1"
      using True by (auto simp: reauth_ok_def)
    show ?thesis
      using con gt cc cr rq1 c0 nots True
      by (intro exI [of _ cres] exI [of _ c1] exI [of _ w1] exI [of _ res] exI [of _ c']
          exI [of _ w']) simp
  qed
qed

lemma retried_returns_reply:
  assumes "build_request L c method path ps body True (script w (step w)) = Inr rq"
    and "response (script w (step w)) = Json data"
  shows "request (Suc 0) L c w method path ps body True False =
     Some (Inr data, c, sent (entered w True False) rq)"
  using request_plain [of True False 0 L c w "method" path ps body]
    try_once_built [OF assms(1), of False] assms(2)
  by (simp add: request_once_def)

lemma request_once_built:
  assumes "build_request L c method path ps body use_token (script w (step w)) = Inr rq"
  shows "request_once L c w method path ps body use_token retry =
     (Inr (reply_value (response (script w (step w)))), c, sent (entered w use_token retry) rq)"
  using try_once_built [OF assms, of retry]
  by (simp add: request_once_def reply_value_def split: http_result.splits)

lemma connect_once_built:
  assumes "token_request L c (script w (step w)) = Inr rq"
  shows "connect_once L c w =
     (case store_token c (reply_value (response (script w (step w)))) of
        Inl e \<Rightarrow> Inl e
      | Inr c2 \<Rightarrow> Inr (reply_value (response (script w (step w)))),
      case store_token c (reply_value (response (script w (step w)))) of
        Inl e \<Rightarrow> c
      | Inr c2 \<Rightarrow> c2,
      sent (entered (w\<lparr>trace := trace w @ [Enter_connect]\<rparr>) False True) rq)"
proof -
  let ?w = "w\<lparr>trace := trace w @ [Enter_connect]\<rparr>"
  have b: "build_request L c ''GET'' ''/v1.0/token'' [(''grant_type'', QInt 1)] PNone False
      (script ?w (step ?w)) = Inr rq"
    using assms by (simp add: token_request_def)
  show ?thesis
    unfolding connect_once_def request_once_built [OF b]
    by (simp split: sum.splits)
qed

lemma token_request_ok: "\<exists>rq. token_request L c x = Inr rq"
  unfolding token_request_def by (rule build_request_unauth)

lemma store_token_failure [simp]:
  "store_token c (http_error e) = Inr c" "store_token c (non_json st tx) = Inr c"
  by (simp_all add: store_token_def http_error_def non_json_def dict_get_def dict_lookup_def)

lemma store_token_frame:
  "store_token c data = Inr c' \<Longrightarrow> access_token c' \<noteq> access_token c \<Longrightarrow>
   \<exists>d r. data = PDict d \<and> py_bool (dict_get d ''success'') \<and>
         dict_get_default d ''result'' (PDict []) = PDict r \<and>
         py_bool (dict_get r ''access_token'') \<and>
         c' = c\<lparr>access_token := dict_get r ''access_token''\<rparr>"
  by (auto simp: store_token_def Let_def split: pyval.splits if_splits)

text \<open>
  What \<^verbatim>\<open>connect\<close> does to the held token: it changes only on a dict response with a truthy
  \<^verbatim>\<open>success\<close> whose \<^verbatim>\<open>result\<close> holds a truthy \<^verbatim>\<open>access_token\<close>, which becomes the held token;
  and \<^verbatim>\<open>connect\<close> either returns what the attempt yielded or raises \<^verbatim>\<open>AttributeError\<close>.
\<close>

lemma connect_frame:
  assumes "connect (Suc n) L c w = Some (res, c', w')"
  shows "(access_token c' \<noteq> access_token c \<longrightarrow>
      (\<exists>d r. response (script w (step w)) = Json (PDict d) \<and>
         py_bool (dict_get d ''success'') \<and>
         dict_get_default d ''result'' (PDict []) = PDict r \<and>
         py_bool (dict_get r ''access_token'') \<and>
         access_token c' = dict_get r ''access_token'' \<and> res = Inr (PDict d))) \<and>
     (res = Inl AttributeError \<or>
      res = Inr (reply_value (response (script w (step w)))))"
proof -
  obtain rq where rq: "token_request L c (script w (step w)) = Inr rq"
    using token_request_ok by blast
  let ?v = "reply_value (response (script w (step w)))"
  from assms have co: "connect_once L c w = (res, c', w')"
    by (simp only: connect_Suc option.inject)
  show ?thesis
  proof (cases "store_token c ?v")
    case (Inl e)
    then have "e = AttributeError"
      by (auto simp: store_token_def Let_def split: pyval.splits if_splits)
    then show ?thesis
      using co Inl unfolding connect_once_built [OF rq] by simp
  next
    case (Inr c2)
    have eq: "res = Inr ?v" "c' = c2"
      using co Inr unfolding connect_once_built [OF rq] by simp_all
    show ?thesis
    proof (cases "access_token c2 = access_token c")
      case True
      then show ?thesis using eq by simp
    next
      case False
      from store_token_frame [OF Inr False] obtain d r where
        d: "?v = PDict d" "py_bool (dict_get d ''success'')"
          "dict_get_default d ''result'' (PDict []) = PDict r"
          "py_bool (dict_get r ''access_token'')"
          "c2 = c\<lparr>access_token := dict_get r ''access_token''\<rparr>"
        by blast
      have "response (script w (step w)) = Json (PDict d)"
        using d(1,2)
        by (cases "response (script w (step w))")
          (auto simp: reply_value_def http_error_def non_json_def dict_get_def dict_lookup_def)
      then show ?thesis
        using d eq by auto
    qed
  qed
qed

lemma not_1010_http_error [simp]: "\<not> is_1010 (http_error e)"
  by (simp add: is_1010_def http_error_def dict_get_def dict_lookup_def py_eq_def)

lemma request_grows:
  assumes "request (Suc (Suc 0)) L c w method path ps body use_token retry = Some (res, c', w')"
  shows "\<exists>evs. trace w' =
     trace w @ attempt_events L c w method path ps body use_token retry @ evs"
proof -
  obtain a w0 where att: "try_once L c w method path ps body use_token retry = (a, w0)"
    by (cases "try_once L c w method path ps body use_token retry")
  have tr0: "trace w0 = trace w @ attempt_events L c w method path ps body use_token retry"
    using try_once_world [of L c w "method" path ps body use_token retry] att by simp
  obtain cres c1 w1 where co: "connect_once L c w0 = (cres, c1, w1)"
    using prod_cases3 by blast
  have tr1: "trace w1 = trace w0 @ new_events w0 w1"
    using co by (rule connect_once_trace)
  obtain r2 c2 w2 where ro:
    "request_once L c1 w1 (py_upper method) (norm_path path) ps body True False = (r2, c2, w2)"
    using prod_cases3 by blast
  have tr2: "trace w2 = trace w1 @
      attempt_events L c1 w1 (py_upper method) (norm_path path) ps body True False"
    using ro by (rule request_once_trace)
  from assms have "w' = w0 \<or> w' = w1 \<or> w' = w2"
    unfolding request_Suc_Suc att
    by (auto simp: co ro split: attempt.splits if_splits sum.splits)
  then show ?thesis
    using tr0 tr1 tr2 by auto
qed

lemma get_sends_first:
  assumes built: "build_request L c ''GET'' path ps PNone True (script w (step w)) = Inr rq"
    and got: "get (Suc (Suc 0)) L c w path ps = Some (res, c', w')"
  shows "take 2 (new_events w w') = [Enter_request True True, Http_get rq]"
proof -
  from request_grows [OF got [unfolded get_def]] obtain evs where
    "trace w' = trace w @ attempt_events L c w ''GET'' path ps PNone True True @ evs"
    by blast
  then have "new_events w w' = [Enter_request True True, Http_get rq] @ evs"
    using built by (simp add: new_events_def attempt_events_def)
  then show ?thesis by simp
qed

lemma build_request_no_token:
  assumes "access_token c = PNone"
  shows "build_request L c method path ps body True x =
      build_request L c method path ps body False x"
    and "build_request L c method path ps body True x =
      Inr \<lparr>url = base_url c @ full_path_of path ps,
           headers =
             [(''client_id'', access_id c),
              (''sign'', sign_of L c (access_id c @ py_str_int (now_ms x) @ nonce x @
                 string_to_sign_of L (py_upper method) (body_str_of L (py_upper method) body)
                   (full_path_of path ps))),
              (''t'', py_str_int (now_ms x)), (''nonce'', nonce x),
              (''sign_method'', ''HMAC-SHA256'')]
             @ (if body_str_of L (py_upper method) body \<noteq> []
                then [(''Content-Type'', ''application/json'')] else [])\<rparr>"
  using assms
  by (simp_all add: build_request_def Let_def token_segment_def message_of_def headers_of_def)

lemma build_request_str_token:
  "access_token c = PStr tok \<Longrightarrow> \<exists>rq. build_request L c method path ps body use_token x = Inr rq"
  by (simp add: build_request_def Let_def token_segment_def)


lemma tagged_failure [simp]: "tagged (http_error e)" "tagged (non_json st tx)"
  by (simp_all add: tagged_def http_error_def non_json_def dict_lookup_def)

lemma dict_lookup_Nil [simp]: "dict_lookup [] k = None"
  by (simp add: dict_lookup_def)











lemma world_of_simps [simp]:
  "response (script (world_of replies) n) = replies n"
  "step (world_of replies) = 0"
  "trace (world_of replies) = []"
  by (simp_all add: world_of_def)

lemma sample_client_token [simp]: "access_token sample_client = PNone"
  by (simp add: sample_client_def TuyaOpenAPI_def)

lemma is_1010_token_invalid [simp]: "is_1010 token_invalid"
  by (simp add: token_invalid_def is_1010_def dict_get_def dict_lookup_def py_eq_def)

text \<open>
  What holds of the refresh when \<^verbatim>\<open>connect\<close> returns. Two nested \<^verbatim>\<open>_request\<close> frames are enough
  for any call and any responses, and more frames change nothing. When an authenticated
  \<^verbatim>\<open>get\<close> is sent and its response is a dict with code 1010, \<^verbatim>\<open>connect\<close> is entered exactly
  once; the request is retried (entered with \<^verbatim>\<open>retry=False\<close>) exactly once when \<^verbatim>\<open>connect\<close>
  returned a success response and not at all otherwise; the retry is one plain \<^verbatim>\<open>_request\<close>
  that enters \<^verbatim>\<open>connect\<close> no more; when \<^verbatim>\<open>connect\<close> returned a response that is no success,
  the token-invalid response is what \<^verbatim>\<open>get\<close> returns. A request entered with \<^verbatim>\<open>retry=False\<close>
  returns the JSON body it receives as it is, a second code 1010 included.
\<close>

lemma refresh_once:
  "request (Suc (Suc 0)) L c w method path ps body use_token retry \<noteq> None \<and>
   request (Suc (Suc n)) L c w method path ps body use_token retry =
     request (Suc (Suc 0)) L c w method path ps body use_token retry \<and>
   (build_request L c ''GET'' path ps PNone True (script w (step w)) = Inr rq \<and>
    response (script w (step w)) = Json data \<and> is_1010 data \<longrightarrow>
      (\<exists>cres c1 w1 res c' w'.
         connect (Suc 0) L c (sent (entered w True True) rq) = Some (cres, c1, w1) \<and>
         get (Suc (Suc 0)) L c w path ps = Some (res, c', w') \<and>
         count_connect (new_events w w') = 1 \<and>
         count_retry (new_events w w') = (if reauth_ok cres then 1 else 0) \<and>
         (reauth_ok cres \<longrightarrow>
            request (Suc 0) L c1 w1 ''GET'' (norm_path path) ps PNone True False =
              Some (res, c', w') \<and>
            count_connect (new_events w1 w') = 0) \<and>
         (\<forall>cv. cres = Inr cv \<and> \<not> is_success cv \<longrightarrow>
            res = Inr data \<and> c' = c1 \<and> w' = w1))) \<and>
   (build_request L c method path ps body True (script w (step w)) = Inr rq \<and>
    response (script w (step w)) = Json data \<longrightarrow>
      request (Suc 0) L c w method path ps body True False =
        Some (Inr data, c, sent (entered w True False) rq))"
proof (intro conjI impI)
  show "request (Suc (Suc 0)) L c w method path ps body use_token retry \<noteq> None"
    by (rule request_two_total)
next
  show "request (Suc (Suc n)) L c w method path ps body use_token retry =
     request (Suc (Suc 0)) L c w method path ps body use_token retry"
    by (rule request_more_fuel)
next
  assume "build_request L c ''GET'' path ps PNone True (script w (step w)) = Inr rq \<and>
    response (script w (step w)) = Json data \<and> is_1010 data"
  then show "\<exists>cres c1 w1 res c' w'.
         connect (Suc 0) L c (sent (entered w True True) rq) = Some (cres, c1, w1) \<and>
         get (Suc (Suc 0)) L c w path ps = Some (res, c', w') \<and>
         count_connect (new_events w w') = 1 \<and>
         count_retry (new_events w w') = (if reauth_ok cres then 1 else 0) \<and>
         (reauth_ok cres \<longrightarrow>
            request (Suc 0) L c1 w1 ''GET'' (norm_path path) ps PNone True False =
              Some (res, c', w') \<and>
            count_connect (new_events w1 w') = 0) \<and>
         (\<forall>cv. cres = Inr cv \<and> \<not> is_success cv \<longrightarrow>
            res = Inr data \<and> c' = c1 \<and> w' = w1)"
    using get_refresh_core [of L c path ps w rq data] by blast
next
  assume "build_request L c method path ps body True (script w (step w)) = Inr rq \<and>
    response (script w (step w)) = Json data"
  then show "request (Suc 0) L c w method path ps body True False =
        Some (Inr data, c, sent (entered w True False) rq)"
    using retried_returns_reply by blast
qed

lemma refresh_once_example:
  "\<exists>c' w'.
     get (Suc (Suc 0)) sample_lib (sample_client\<lparr>access_token := PStr ''old''\<rparr>)
       (world_of refresh_replies) ''/x'' []
       = Some (Inr token_invalid, c', w') \<and>
     access_token c' = PStr ''new'' \<and>
     count_connect (new_events (world_of refresh_replies) w') = 1 \<and>
     count_retry (new_events (world_of refresh_replies) w') = 1"
proof -
  let ?L = sample_lib
  let ?c = "sample_client\<lparr>access_token := PStr ''old''\<rparr>"
  let ?d = token_invalid
  let ?t = token_granted
  let ?w = "world_of refresh_replies"
  have old: "access_token ?c = PStr ''old''"
    by simp
  obtain rq where rq: "build_request ?L ?c ''GET'' ''/x'' [] PNone True (script ?w (step ?w)) = Inr rq"
    using build_request_str_token [OF old] by blast
  have reply: "response (script ?w (step ?w)) = Json ?d"
    by (simp add: refresh_replies_def)
  have invalid: "is_1010 ?d"
    by simp
  let ?wa = "sent (entered ?w True True) rq"
  note T = refresh_once [of ?L ?c ?w "''GET''" "''/x''" "[]" PNone True True 0 rq ?d]
  from T rq reply invalid obtain cres c1 w1 res c' w' where core:
    "connect (Suc 0) ?L ?c ?wa = Some (cres, c1, w1)"
    "get (Suc (Suc 0)) ?L ?c ?w ''/x'' [] = Some (res, c', w')"
    "count_connect (new_events ?w w') = 1"
    "count_retry (new_events ?w w') = (if reauth_ok cres then 1 else 0)"
    "reauth_ok cres \<longrightarrow>
       request (Suc 0) ?L c1 w1 ''GET'' (norm_path ''/x'') [] PNone True False =
         Some (res, c', w') \<and> count_connect (new_events w1 w') = 0"
    by blast
  obtain trq where trq: "token_request ?L ?c (script ?wa (step ?wa)) = Inr trq"
    using token_request_ok by blast
  have tok: "response (script ?wa (step ?wa)) = Json ?t"
    by (simp add: refresh_replies_def)
  have st: "store_token ?c ?t = Inr (?c\<lparr>access_token := PStr ''new''\<rparr>)"
    by (simp add: token_granted_def store_token_def dict_get_def dict_get_default_def
        dict_lookup_def)
  have con: "connect (Suc 0) ?L ?c ?wa =
      Some (Inr ?t, ?c\<lparr>access_token := PStr ''new''\<rparr>,
        sent (entered (?wa\<lparr>trace := trace ?wa @ [Enter_connect]\<rparr>) False True) trq)"
    unfolding connect_Suc connect_once_built [OF trq] tok
    by (simp add: reply_value_def st)
  have cres: "cres = Inr ?t" and c1: "c1 = ?c\<lparr>access_token := PStr ''new''\<rparr>"
    and w1: "w1 = sent (entered (?wa\<lparr>trace := trace ?wa @ [Enter_connect]\<rparr>) False True) trq"
    using core(1) con by simp_all
  have ok: "reauth_ok cres"
    unfolding cres
    by (simp add: token_granted_def reauth_ok_def is_success_def dict_get_def dict_lookup_def)
  have new: "access_token c1 = PStr ''new''"
    unfolding c1 by simp
  obtain rq2 where rq2:
    "build_request ?L c1 ''GET'' (norm_path ''/x'') [] PNone True (script w1 (step w1)) = Inr rq2"
    using build_request_str_token [OF new] by blast
  have reply2: "response (script w1 (step w1)) = Json ?d"
    unfolding w1 by (simp add: refresh_replies_def)
  note T2 = refresh_once [of ?L c1 w1 "''GET''" "norm_path ''/x''" "[]" PNone True False 0 rq2 ?d]
  from T2 rq2 reply2
  have "request (Suc 0) ?L c1 w1 ''GET'' (norm_path ''/x'') [] PNone True False =
      Some (Inr ?d, c1, sent (entered w1 True False) rq2)"
    by blast
  then have res: "res = Inr ?d" and c': "c' = c1"
    using core(5) ok by simp_all
  show ?thesis
    using core(2) core(3) core(4) ok res c' new by simp
qed

text \<open>
  Claim C2 says that for every authenticated \<^verbatim>\<open>get\<close> answered by code 1010 a failed
  re-authentication causes the token-invalid response to be returned to the caller. When
  the token endpoint answers the refresh with \<^verbatim>\<open>{"success": true, "result": null}\<close>, line 31
  of \<^verbatim>\<open>connect\<close> raises \<^verbatim>\<open>AttributeError\<close>; nothing between line 91 and the caller catches it,
  so \<^verbatim>\<open>get\<close> raises instead of returning the token-invalid response. The held token stays
  as it was, and \<^verbatim>\<open>connect\<close> was entered once and the request never retried.
\<close>

theorem get_raises_when_connect_raises:
  "response (script (world_of token_missing_replies) 0) = Json token_invalid \<and>
   is_1010 token_invalid \<and>
   (\<exists>w'. get (Suc (Suc n)) L (sample_client\<lparr>access_token := PStr ''old''\<rparr>)
            (world_of token_missing_replies) ''/x'' []
          = Some (Inl AttributeError, sample_client\<lparr>access_token := PStr ''old''\<rparr>, w') \<and>
        count_connect (new_events (world_of token_missing_replies) w') = 1 \<and>
        count_retry (new_events (world_of token_missing_replies) w') = 0)"
proof -
  let ?c = "sample_client\<lparr>access_token := PStr ''old''\<rparr>"
  let ?w = "world_of token_missing_replies"
  have old: "access_token ?c = PStr ''old''"
    by simp
  obtain rq where rq: "build_request L ?c ''GET'' ''/x'' [] PNone True (script ?w (step ?w)) = Inr rq"
    using build_request_str_token [OF old] by blast
  have reply: "response (script ?w (step ?w)) = Json token_invalid"
    by (simp add: token_missing_replies_def)
  let ?wa = "sent (entered ?w True True) rq"
  obtain trq where trq: "token_request L ?c (script ?wa (step ?wa)) = Inr trq"
    using token_request_ok by blast
  have tok: "response (script ?wa (step ?wa)) = Json token_missing"
    by (simp add: token_missing_replies_def)
  have st: "store_token ?c token_missing = Inl AttributeError"
    by (simp add: token_missing_def store_token_def dict_get_def dict_get_default_def
        dict_lookup_def)
  let ?wb = "sent (entered (?wa\<lparr>trace := trace ?wa @ [Enter_connect]\<rparr>) False True) trq"
  have con: "connect_once L ?c ?wa = (Inl AttributeError, ?c, ?wb)"
    unfolding connect_once_built [OF trq] tok
    by (simp add: reply_value_def st)
  have g: "get (Suc (Suc n)) L ?c ?w ''/x'' [] = Some (Inl AttributeError, ?c, ?wb)"
    unfolding get_def request_Suc_Suc try_once_built [OF rq] reply
    by (simp add: con)
  have ev: "new_events ?w ?wb =
      [Enter_request True True, Http_get rq, Enter_connect, Enter_request False True, Http_get trq]"
    by (simp add: new_events_def)
  have cnt: "count_connect (new_events ?w ?wb) = 1" "count_retry (new_events ?w ?wb) = 0"
    unfolding ev by (simp_all add: count_connect_def count_retry_def)
  have r0: "response (script ?w 0) = Json token_invalid"
    by (simp add: token_missing_replies_def)
  show ?thesis
    using g cnt r0 by auto
qed




text \<open>
  Claim C9 says that \<^verbatim>\<open>connect\<close> returns without raising on a success response that holds
  no token. On the response \<^verbatim>\<open>{"success": true, "result": null}\<close> the source evaluates
  \<^verbatim>\<open>data.get('result', {})\<close> to \<^verbatim>\<open>None\<close> and \<^verbatim>\<open>None.get('access_token')\<close> raises
  \<^verbatim>\<open>AttributeError\<close>; the held token stays as it was.
\<close>

theorem connect_raises_on_null_result:
  "\<exists>w'. connect (Suc 0) L sample_client
       (world_of (\<lambda>n. Json (PDict [(PStr ''success'', PBool True), (PStr ''result'', PNone)])))
     = Some (Inl AttributeError, sample_client, w')"
proof -
  let ?v = "PDict [(PStr ''success'', PBool True), (PStr ''result'', PNone)]"
  let ?w = "world_of (\<lambda>n. Json ?v)"
  obtain rq where rq: "token_request L sample_client (script ?w (step ?w)) = Inr rq"
    using token_request_ok by blast
  have st: "store_token sample_client (reply_value (response (script ?w (step ?w)))) =
      Inl AttributeError"
    by (simp add: store_token_def reply_value_def dict_get_def dict_get_default_def
        dict_lookup_def)
  show ?thesis
    unfolding connect_Suc connect_once_built [OF rq]
    using st by simp
qed

text \<open>
  Claim C10. With no token held, \<^verbatim>\<open>_request\<close> with \<^verbatim>\<open>use_token=True\<close> builds the very request
  it builds with \<^verbatim>\<open>use_token=False\<close>: the message is the client id, the timestamp, the nonce
  and the string to sign, with no token segment, and there is no \<^verbatim>\<open>access_token\<close> header.
  \<^verbatim>\<open>get\<close> sends this request first, before any \<^verbatim>\<open>connect\<close>; and when the response is a dict
  with code 1010, \<^verbatim>\<open>connect\<close> is entered exactly once and the request is retried once when
  \<^verbatim>\<open>connect\<close> returned a success response.
\<close>

theorem tokenless_get:
  "access_token c = PNone \<longrightarrow>
     build_request L c method path ps body True x =
       build_request L c method path ps body False x \<and>
     (\<exists>rq. build_request L c method path ps body True x = Inr rq \<and>
        map_of (headers rq) ''access_token'' = None \<and>
        map_of (headers rq) ''sign'' =
          Some (sign_of L c (access_id c @ py_str_int (now_ms x) @ nonce x @
                  string_to_sign_of L (py_upper method) (body_str_of L (py_upper method) body)
                    (full_path_of path ps)))) \<and>
     (\<exists>rq res c' w'.
        build_request L c ''GET'' path ps PNone True (script w (step w)) = Inr rq \<and>
        get (Suc (Suc 0)) L c w path ps = Some (res, c', w') \<and>
        take 2 (new_events w w') = [Enter_request True True, Http_get rq] \<and>
        (\<forall>data. response (script w (step w)) = Json data \<and> is_1010 data \<longrightarrow>
           count_connect (new_events w w') = 1 \<and>
           (\<exists>cres c1 w1.
              connect (Suc 0) L c (sent (entered w True True) rq) = Some (cres, c1, w1) \<and>
              count_retry (new_events w w') = (if reauth_ok cres then 1 else 0))))"
proof (intro impI conjI)
  assume none: "access_token c = PNone"
  show "build_request L c method path ps body True x =
       build_request L c method path ps body False x"
    using none by (rule build_request_no_token(1))
  show "\<exists>rq. build_request L c method path ps body True x = Inr rq \<and>
        map_of (headers rq) ''access_token'' = None \<and>
        map_of (headers rq) ''sign'' =
          Some (sign_of L c (access_id c @ py_str_int (now_ms x) @ nonce x @
                  string_to_sign_of L (py_upper method) (body_str_of L (py_upper method) body)
                    (full_path_of path ps)))"
    unfolding build_request_no_token(2) [OF none] by simp
  obtain rq where rq: "build_request L c ''GET'' path ps PNone True (script w (step w)) = Inr rq"
    unfolding build_request_no_token(2) [OF none] by simp
  obtain res c' w' where got: "get (Suc (Suc 0)) L c w path ps = Some (res, c', w')"
    using request_two_total [of L c w "''GET''" path ps PNone True True]
    by (auto simp: get_def)
  have first: "take 2 (new_events w w') = [Enter_request True True, Http_get rq]"
    using rq got by (rule get_sends_first)
  have refresh: "count_connect (new_events w w') = 1 \<and>
      (\<exists>cres c1 w1.
         connect (Suc 0) L c (sent (entered w True True) rq) = Some (cres, c1, w1) \<and>
         count_retry (new_events w w') = (if reauth_ok cres then 1 else 0))"
    if "response (script w (step w)) = Json data \<and> is_1010 data" for data
  proof -
    from get_refresh_core [OF rq] that obtain cres c1 w1 res2 c2 w2 where
      core: "connect (Suc 0) L c (sent (entered w True True) rq) = Some (cres, c1, w1)"
        "get (Suc (Suc 0)) L c w path ps = Some (res2, c2, w2)"
        "count_connect (new_events w w2) = 1"
        "count_retry (new_events w w2) = (if reauth_ok cres then 1 else 0)"
      by blast
    have "w2 = w'"
      using core(2) got by simp
    then show ?thesis
      using core by blast
  qed
  show "\<exists>rq res c' w'.
        build_request L c ''GET'' path ps PNone True (script w (step w)) = Inr rq \<and>
        get (Suc (Suc 0)) L c w path ps = Some (res, c', w') \<and>
        take 2 (new_events w w') = [Enter_request True True, Http_get rq] \<and>
        (\<forall>data. response (script w (step w)) = Json data \<and> is_1010 data \<longrightarrow>
           count_connect (new_events w w') = 1 \<and>
           (\<exists>cres c1 w1.
              connect (Suc 0) L c (sent (entered w True True) rq) = Some (cres, c1, w1) \<and>
              count_retry (new_events w w') = (if reauth_ok cres then 1 else 0)))"
    using rq got first refresh by blast
qed

theorem tokenless_get_witness:
  "\<exists>rq res c' w'.
     get (Suc (Suc 0)) sample_lib sample_client (world_of (\<lambda>n. Json token_invalid)) ''/x'' []
       = Some (res, c', w') \<and>
     take 2 (new_events (world_of (\<lambda>n. Json token_invalid)) w') =
       [Enter_request True True, Http_get rq] \<and>
     map_of (headers rq) ''access_token'' = None \<and>
     count_connect (new_events (world_of (\<lambda>n. Json token_invalid)) w') = 1"
proof -
  let ?L = sample_lib
  let ?c = sample_client
  let ?w = "world_of (\<lambda>n. Json token_invalid)"
  let ?x = "script ?w (step ?w)"
  have reply: "response (script ?w (step ?w)) = Json token_invalid \<and> is_1010 token_invalid"
    by simp
  note T = tokenless_get [of ?c ?L "''GET''" "''/x''" "[]" PNone ?x ?w, rule_format,
      OF sample_client_token]
  from T obtain rq0 where a: "build_request ?L ?c ''GET'' ''/x'' [] PNone True ?x = Inr rq0"
    "map_of (headers rq0) ''access_token'' = None"
    by blast
  from T obtain rq res c' w' where b:
    "build_request ?L ?c ''GET'' ''/x'' [] PNone True (script ?w (step ?w)) = Inr rq"
    "get (Suc (Suc 0)) ?L ?c ?w ''/x'' [] = Some (res, c', w')"
    "take 2 (new_events ?w w') = [Enter_request True True, Http_get rq]"
    "\<forall>data. response (script ?w (step ?w)) = Json data \<and> is_1010 data \<longrightarrow>
       count_connect (new_events ?w w') = 1 \<and>
       (\<exists>cres c1 w1.
          connect (Suc 0) ?L ?c (sent (entered ?w True True) rq) = Some (cres, c1, w1) \<and>
          count_retry (new_events ?w w') = (if reauth_ok cres then 1 else 0))"
    by blast
  have same: "rq = rq0"
    using a(1) b(1) by simp
  have cc: "count_connect (new_events ?w w') = 1"
    using b(4) reply by blast
  show ?thesis
    using b(2) b(3) a(2) cc same by blast
qed

end
